theory Spec2Isabelle
  imports Main "HOL-Library.Sublist" "HOL-Library.Multiset" "HOL-Library.Product_Lexorder"
begin

section \<open>JSON values and the JavaScript operations applied to them\<close>

text \<open>
  A transcript line that \<^verbatim>\<open>JSON.parse\<close> accepts becomes a \<open>jsval\<close>. The
  entries of \<open>JObj\<close> are the object's own properties in the order
  \<^verbatim>\<open>Object.entries\<close> enumerates them, with distinct keys. JSON numbers are
  modelled by integers (token counts, versions and epoch milliseconds are
  integral); \<^verbatim>\<open>undefined\<close> is the \<open>None\<close> of \<open>jsval option\<close>. Strings are
  sequences of ASCII characters.
\<close>

datatype jsval =
    JNull
  | JBool bool
  | JNum int
  | JStr string
  | JArr "jsval list"
  | JObj "(string \<times> jsval) list"

text \<open>
  \<open>TypeError\<close> is the exception JavaScript raises on reading a property of
  \<^verbatim>\<open>null\<close> or \<^verbatim>\<open>undefined\<close>. \<open>IllTyped\<close> is not an exception of the
  program: the model stops with it where a value that the code stores as a
  string or adds as a number is present and truthy but has another JSON type
  than \<^verbatim>\<open>types.ts\<close> declares, instead of following JavaScript's coercions.
\<close>

datatype error = TypeError | IllTyped

definition bindE :: "error + 'a \<Rightarrow> ('a \<Rightarrow> error + 'b) \<Rightarrow> error + 'b" where
  "bindE m f = (case m of Inl e \<Rightarrow> Inl e | Inr x \<Rightarrow> f x)"

fun foldE :: "('a \<Rightarrow> 's \<Rightarrow> error + 's) \<Rightarrow> 'a list \<Rightarrow> 's \<Rightarrow> error + 's" where
  "foldE f [] s = Inr s"
| "foldE f (x # xs) s = (case f x s of Inl e \<Rightarrow> Inl e | Inr s' \<Rightarrow> foldE f xs s')"

fun filterE :: "('a \<Rightarrow> error + bool) \<Rightarrow> 'a list \<Rightarrow> error + 'a list" where
  "filterE p [] = Inr []"
| "filterE p (x # xs) =
     (case p x of
        Inl e \<Rightarrow> Inl e
      | Inr b \<Rightarrow>
          (case filterE p xs of
             Inl e \<Rightarrow> Inl e
           | Inr ys \<Rightarrow> Inr (if b then x # ys else ys)))"

fun truthyVal :: "jsval \<Rightarrow> bool" where
  "truthyVal JNull = False"
| "truthyVal (JBool b) = b"
| "truthyVal (JNum n) = (n \<noteq> 0)"
| "truthyVal (JStr s) = (s \<noteq> [])"
| "truthyVal (JArr xs) = True"
| "truthyVal (JObj kvs) = True"

definition truthy :: "jsval option \<Rightarrow> bool" where
  "truthy v = (case v of None \<Rightarrow> False | Some x \<Rightarrow> truthyVal x)"

text \<open>
  \<open>field v k\<close> is \<^verbatim>\<open>v[k]\<close> for a value other than \<^verbatim>\<open>null\<close>, for the keys
  the program reads (none of them is a built-in property of a string, a number,
  an array or \<^verbatim>\<open>Object.prototype\<close>). \<open>getProp\<close> adds the exception.
\<close>

fun field :: "jsval \<Rightarrow> string \<Rightarrow> jsval option" where
  "field (JObj kvs) k = map_of kvs k"
| "field _ k = None"

definition getProp :: "jsval option \<Rightarrow> string \<Rightarrow> error + jsval option" where
  "getProp v k =
     (case v of
        None \<Rightarrow> Inl TypeError
      | Some x \<Rightarrow> if x = JNull then Inl TypeError else Inr (field x k))"

text \<open>\<^verbatim>\<open>a || b\<close> on values.\<close>

definition orElse :: "jsval option \<Rightarrow> jsval option \<Rightarrow> jsval option" where
  "orElse a b = (if truthy a then a else b)"

text \<open>A value the code uses as a string when it is truthy.\<close>

fun truthyString :: "jsval option \<Rightarrow> error + string option" where
  "truthyString (Some (JStr s)) = Inr (if s = [] then None else Some s)"
| "truthyString v = (if truthy v then Inl IllTyped else Inr None)"

text \<open>\<^verbatim>\<open>v || d\<close> for a string default \<open>d\<close>.\<close>

definition stringOr :: "jsval option \<Rightarrow> string \<Rightarrow> error + string" where
  "stringOr v d =
     (case truthyString v of
        Inl e \<Rightarrow> Inl e
      | Inr None \<Rightarrow> Inr d
      | Inr (Some s) \<Rightarrow> Inr s)"

text \<open>\<^verbatim>\<open>v || 0\<close> for a counter that is then added to a number.\<close>

fun numberOrZero :: "jsval option \<Rightarrow> error + int" where
  "numberOrZero (Some (JNum n)) = Inr n"
| "numberOrZero v = (if truthy v then Inl IllTyped else Inr 0)"

fun decimal :: "nat \<Rightarrow> string" where
  "decimal n =
     (if n < 10 then [char_of (48 + n)]
      else decimal (n div 10) @ [char_of (48 + n mod 10)])"

definition joinWith :: "string \<Rightarrow> string list \<Rightarrow> string" where
  "joinWith sep xs = (case xs of [] \<Rightarrow> [] | y # ys \<Rightarrow> foldl (\<lambda>acc z. acc @ sep @ z) y ys)"

text \<open>\<^verbatim>\<open>v.toString()\<close> for a value other than \<^verbatim>\<open>null\<close>.\<close>

fun jsToString :: "jsval \<Rightarrow> string" where
  "jsToString JNull = ''null''"
| "jsToString (JBool b) = (if b then ''true'' else ''false'')"
| "jsToString (JNum n) = (if n < 0 then CHR ''-'' # decimal (nat (- n)) else decimal (nat n))"
| "jsToString (JStr s) = s"
| "jsToString (JArr xs) =
     joinWith '','' (map (\<lambda>x. if x = JNull then [] else jsToString x) xs)"
| "jsToString (JObj kvs) = ''[object Object]''"

text \<open>
  \<^verbatim>\<open>Object.entries(v)\<close> for a truthy value: the own properties of an object,
  the indexed elements of an array, the indexed characters of a string,
  nothing for a number or a boolean.
\<close>

fun entries :: "jsval \<Rightarrow> (string \<times> jsval) list" where
  "entries (JObj kvs) = kvs"
| "entries (JArr xs) = zip (map decimal [0..<length xs]) xs"
| "entries (JStr s) = zip (map decimal [0..<length s]) (map (\<lambda>c. JStr [c]) s)"
| "entries _ = []"

subsection \<open>Strings\<close>

definition isWhitespace :: "char \<Rightarrow> bool" where
  "isWhitespace c =
     (c \<in> set [CHR 0x09, CHR 0x0A, CHR 0x0B, CHR 0x0C, CHR 0x0D, CHR 0x20])"

definition trim :: "string \<Rightarrow> string" where
  "trim s = rev (dropWhile isWhitespace (rev (dropWhile isWhitespace s)))"

definition toLowerChar :: "char \<Rightarrow> char" where
  "toLowerChar c =
     (let n = (of_char c :: nat) in if 65 \<le> n \<and> n \<le> 90 then char_of (n + 32) else c)"

definition toLowerCase :: "string \<Rightarrow> string" where
  "toLowerCase s = map toLowerChar s"

text \<open>\<^verbatim>\<open>s.includes(t)\<close>: \<open>t\<close> occurs in \<open>s\<close> as a contiguous run.\<close>

definition stringIncludes :: "string \<Rightarrow> string \<Rightarrow> bool" where
  "stringIncludes s t = sublist t s"

definition endsWith :: "string \<Rightarrow> string \<Rightarrow> bool" where
  "endsWith s t = suffix t s"

text \<open>\<^verbatim>\<open>s.split(c)\<close> for a one-character separator.\<close>

fun splitOn :: "char \<Rightarrow> string \<Rightarrow> string \<Rightarrow> string list" where
  "splitOn c cur [] = [cur]"
| "splitOn c cur (x # xs) =
     (if x = c then cur # splitOn c [] xs else splitOn c (cur @ [x]) xs)"

text \<open>\<^verbatim>\<open>s.split(/\s+/)\<close>: a separator is a maximal run of whitespace.\<close>

function splitWhitespace :: "string \<Rightarrow> string \<Rightarrow> string list" where
  "splitWhitespace cur [] = [cur]"
| "splitWhitespace cur (x # xs) =
     (if isWhitespace x then cur # splitWhitespace [] (dropWhile isWhitespace xs)
      else splitWhitespace (cur @ [x]) xs)"
  by pat_completeness auto
termination
  by (relation "measure (\<lambda>(cur, s). length s)")
     (auto simp: less_Suc_eq_le length_dropWhile_le)

text \<open>
  A set of strings that remembers insertion order, as \<^verbatim>\<open>Set\<close> does:
  \<^verbatim>\<open>Array.from\<close> is then the identity.
\<close>

definition setAdd :: "string \<Rightarrow> string list \<Rightarrow> string list" where
  "setAdd x xs = (if x \<in> set xs then xs else xs @ [x])"

subsection \<open>Dates\<close>

text \<open>A \<^verbatim>\<open>Date\<close> is its time value in milliseconds, or the invalid date (NaN).\<close>

datatype Date = InvalidDate | Time int

definition dateLess :: "Date \<Rightarrow> Date \<Rightarrow> bool" where
  "dateLess a b = (case (a, b) of (Time x, Time y) \<Rightarrow> x < y | _ \<Rightarrow> False)"

definition dateLessEq :: "Date \<Rightarrow> Date \<Rightarrow> bool" where
  "dateLessEq a b = (case (a, b) of (Time x, Time y) \<Rightarrow> x \<le> y | _ \<Rightarrow> False)"

text \<open>\<^verbatim>\<open>new Date(t)\<close> for a number \<open>t\<close>.\<close>

definition timeClip :: "int \<Rightarrow> Date" where
  "timeClip t = (if \<bar>t\<bar> \<le> 8640000000000000 then Time t else InvalidDate)"

subsection \<open>What the program takes from its runtime\<close>

text \<open>
  \<open>JSON_parse\<close> is \<^verbatim>\<open>JSON.parse\<close> (\<open>None\<close> where it throws), \<open>Date_new\<close> is
  \<^verbatim>\<open>new Date(v)\<close> on a timestamp field, the next three are the file system
  (\<open>None\<close> where the call throws; \<open>isDirectory\<close> is false where
  \<^verbatim>\<open>statSync\<close> throws), \<open>pathJoin\<close> is \<^verbatim>\<open>path.join\<close>, and the last two are
  the directories computed from the environment when the module is loaded.
\<close>

record runtime =
  JSON_parse :: "string \<Rightarrow> jsval option"
  Date_new :: "jsval option \<Rightarrow> Date"
  readFileSync :: "string \<Rightarrow> string option"
  readdirSync :: "string \<Rightarrow> string list option"
  isDirectory :: "string \<Rightarrow> bool"
  pathJoin :: "string \<Rightarrow> string \<Rightarrow> string"
  DEFAULT_CLAUDE_SESSIONS_DIR :: string
  DEFAULT_PI_SESSIONS_DIR :: string

section \<open>shared/types.ts\<close>

record Tokens =
  input_n :: int
  output_n :: int
  cacheCreation_n :: int
  cacheRead_n :: int

text \<open>
  \<open>modelTokens\<close> lists the own properties of the \<^verbatim>\<open>Record\<close> in the order
  they were created.
\<close>

record ParsedSession =
  id' :: string
  startedAt :: Date
  endedAt :: Date
  gitBranch :: string
  cwd :: string
  version :: string
  messageCount :: nat
  inputTokens :: int
  outputTokens :: int
  cacheCreationTokens :: int
  cacheReadTokens :: int
  userMessages :: "string list"
  toolsUsed :: "string list"
  filesFromToolCalls :: "string list"
  modelsUsed :: "string list"
  modelTokens :: "(string \<times> Tokens) list"

text \<open>
  A search result is \<^verbatim>\<open>{...session, relevance, transcriptPath}\<close>; the spread
  fields are kept together as \<open>session\<close>.
\<close>

record SearchResult =
  session :: ParsedSession
  relevance :: "int option"
  matchedOn :: "string list option"
  transcriptPath :: string

text \<open>
  \<open>days\<close> and \<open>limit\<close> are integers; a NaN left by \<^verbatim>\<open>parseInt\<close> is falsy as
  0 is, and the code only tests it for truth, so 0 stands for it.
\<close>

record SearchOptions =
  query :: "string option"
  days :: "int option"
  since :: "Date option"
  until :: "Date option"
  tools :: "string list option"
  filePattern :: "string option"
  limit :: "int option"
  source :: "string option"
  directories :: "string list option"

section \<open>shared/parser.ts\<close>

subsection \<open>Tool invocations and file paths\<close>

definition pathKeys :: "string list" where
  "pathKeys = [''file_path'', ''path'', ''file'', ''filename'', ''filePath'']"

definition looksLikePath :: "string \<Rightarrow> bool" where
  "looksLikePath v = (CHR ''/'' \<in> set v \<or> CHR 0x5C \<in> set v)"

text \<open>The first \<^verbatim>\<open>if\<close> of the loop body of \<^verbatim>\<open>extractFilePaths\<close>.\<close>

fun addIfPath :: "string \<Rightarrow> jsval \<Rightarrow> string list \<Rightarrow> string list" where
  "addIfPath key (JStr v) files =
     (if key \<in> set pathKeys \<and> looksLikePath v then setAdd v files else files)"
| "addIfPath key _ files = files"

text \<open>
  \<open>extractFilePaths\<close> runs over \<^verbatim>\<open>Object.entries(input)\<close>. The second
  \<^verbatim>\<open>if\<close> of the body recurses on a value that is truthy, of type object and
  not an array: a \<open>JObj\<close>.
\<close>

fun extractFilePaths :: "(string \<times> jsval) list \<Rightarrow> string list \<Rightarrow> string list" where
  "extractFilePaths [] files = files"
| "extractFilePaths ((key, v) # rest) files =
     extractFilePaths rest
       (case v of
          JObj inner \<Rightarrow> extractFilePaths inner (addIfPath key v files)
        | _ \<Rightarrow> addIfPath key v files)"

text \<open>The two sets the block extractors update: tool names and file paths.\<close>

type_synonym toolsAndFiles = "string list \<times> string list"

definition extractFromContentBlock :: "jsval \<Rightarrow> toolsAndFiles \<Rightarrow> error + toolsAndFiles" where
  "extractFromContentBlock block tf =
     bindE (getProp (Some block) ''type'') (\<lambda>ty.
       if ty = Some (JStr ''tool_use'') then
         bindE (truthyString (field block ''name'')) (\<lambda>name.
           case name of
             None \<Rightarrow> Inr tf
           | Some n \<Rightarrow>
               Inr (setAdd n (fst tf),
                    (case field block ''input'' of
                       None \<Rightarrow> snd tf
                     | Some inp \<Rightarrow>
                         if truthyVal inp then extractFilePaths (entries inp) (snd tf)
                         else snd tf)))
       else Inr tf)"

definition extractFromPiContentBlock :: "jsval \<Rightarrow> toolsAndFiles \<Rightarrow> error + toolsAndFiles" where
  "extractFromPiContentBlock block tf =
     bindE (getProp (Some block) ''type'') (\<lambda>ty.
       if ty = Some (JStr ''toolCall'') then
         bindE (truthyString (field block ''name'')) (\<lambda>name.
           case name of
             None \<Rightarrow> Inr tf
           | Some n \<Rightarrow>
               Inr (setAdd n (fst tf),
                    (case field block ''arguments'' of
                       None \<Rightarrow> snd tf
                     | Some args \<Rightarrow>
                         if truthyVal args then extractFilePaths (entries args) (snd tf)
                         else snd tf)))
       else Inr tf)"

subsection \<open>The accumulators of the two normalizers\<close>

record accum =
  userMessages' :: "string list"
  toolsUsed' :: "string list"
  filesFromToolCalls' :: "string list"
  modelsUsed' :: "string list"
  inputTokens' :: int
  outputTokens' :: int
  cacheCreationTokens' :: int
  cacheReadTokens' :: int
  modelTokens' :: "(string \<times> Tokens) list"

definition initialAccum :: accum where
  "initialAccum =
     \<lparr>userMessages' = [], toolsUsed' = [], filesFromToolCalls' = [], modelsUsed' = [],
      inputTokens' = 0, outputTokens' = 0, cacheCreationTokens' = 0, cacheReadTokens' = 0,
      modelTokens' = []\<rparr>"

definition zeroTokens :: Tokens where
  "zeroTokens = \<lparr>input_n = 0, output_n = 0, cacheCreation_n = 0, cacheRead_n = 0\<rparr>"

definition addTokens :: "Tokens \<Rightarrow> Tokens \<Rightarrow> Tokens" where
  "addTokens u t =
     \<lparr>input_n = input_n t + input_n u, output_n = output_n t + output_n u,
      cacheCreation_n = cacheCreation_n t + cacheCreation_n u,
      cacheRead_n = cacheRead_n t + cacheRead_n u\<rparr>"

text \<open>
  \<^verbatim>\<open>modelTokens[k]\<close> reads an own property or, failing that, one inherited
  from \<^verbatim>\<open>Object.prototype\<close>. Both are truthy: an own entry is an object, the
  inherited ones are functions and the prototype itself.
\<close>

definition objectPrototypeKeys :: "string list" where
  "objectPrototypeKeys =
     [''constructor'', ''hasOwnProperty'', ''isPrototypeOf'', ''propertyIsEnumerable'',
      ''toLocaleString'', ''toString'', ''valueOf'', ''__proto__'',
      ''__defineGetter__'', ''__defineSetter__'', ''__lookupGetter__'', ''__lookupSetter__'']"

definition hasEntry :: "(string \<times> Tokens) list \<Rightarrow> string \<Rightarrow> bool" where
  "hasEntry m k = (k \<in> fst ` set m \<or> k \<in> set objectPrototypeKeys)"

text \<open>
  \<^verbatim>\<open>modelTokens[k].f += n\<close> for the four counters: the own entry changes; where
  \<open>k\<close> names an inherited property the write lands on that object and the
  own entries stay as they are.
\<close>

fun bump :: "string \<Rightarrow> Tokens \<Rightarrow> (string \<times> Tokens) list \<Rightarrow> (string \<times> Tokens) list" where
  "bump k u [] = []"
| "bump k u ((k', t) # m) =
     (if k' = k then (k', addTokens u t) # m else (k', t) # bump k u m)"

text \<open>\<^verbatim>\<open>if (model) { modelsUsed.add(model); if (!modelTokens[model]) ... }\<close>\<close>

definition trackModel :: "string option \<Rightarrow> accum \<Rightarrow> accum" where
  "trackModel model acc =
     (case model of
        None \<Rightarrow> acc
      | Some m \<Rightarrow>
          acc\<lparr>modelsUsed' := setAdd m (modelsUsed' acc),
              modelTokens' :=
                (if hasEntry (modelTokens' acc) m then modelTokens' acc
                 else modelTokens' acc @ [(m, zeroTokens)])\<rparr>)"

text \<open>The body of \<^verbatim>\<open>if (usage)\<close>, once the four counters \<open>u\<close> are read.\<close>

definition addUsage :: "Tokens \<Rightarrow> string option \<Rightarrow> accum \<Rightarrow> accum" where
  "addUsage u model acc =
     acc\<lparr>inputTokens' := inputTokens' acc + input_n u,
         outputTokens' := outputTokens' acc + output_n u,
         cacheCreationTokens' := cacheCreationTokens' acc + cacheCreation_n u,
         cacheReadTokens' := cacheReadTokens' acc + cacheRead_n u,
         modelTokens' :=
           (case model of
              None \<Rightarrow> modelTokens' acc
            | Some m \<Rightarrow>
                if hasEntry (modelTokens' acc) m then bump m u (modelTokens' acc)
                else modelTokens' acc)\<rparr>"

definition readUsage :: "string \<Rightarrow> string \<Rightarrow> string \<Rightarrow> string \<Rightarrow> jsval \<Rightarrow> error + Tokens" where
  "readUsage kIn kOut kCreate kRead usage =
     bindE (numberOrZero (field usage kIn)) (\<lambda>i.
     bindE (numberOrZero (field usage kOut)) (\<lambda>out.
     bindE (numberOrZero (field usage kCreate)) (\<lambda>cc.
     bindE (numberOrZero (field usage kRead)) (\<lambda>cr.
       Inr \<lparr>input_n = i, output_n = out, cacheCreation_n = cc, cacheRead_n = cr\<rparr>))))"

definition accumulateUsage ::
  "(jsval \<Rightarrow> error + Tokens) \<Rightarrow> jsval option \<Rightarrow> string option \<Rightarrow> accum \<Rightarrow> error + accum" where
  "accumulateUsage rd usage model acc =
     (case usage of
        None \<Rightarrow> Inr acc
      | Some u \<Rightarrow>
          if truthyVal u then bindE (rd u) (\<lambda>t. Inr (addUsage t model acc))
          else Inr acc)"

text \<open>\<^verbatim>\<open>sessionId?.match(/([a-f0-9-]{36})\.jsonl$/)?.[1]\<close>\<close>

definition isIdChar :: "char \<Rightarrow> bool" where
  "isIdChar c = (c \<in> set ''abcdef0123456789-'')"

definition matchSessionId :: "string option \<Rightarrow> string option" where
  "matchSessionId sid =
     (case sid of
        None \<Rightarrow> None
      | Some p \<Rightarrow>
          (let n = length p; g = take 36 (drop (n - 42) p) in
           if 42 \<le> n \<and> drop (n - 6) p = ''.jsonl'' \<and> list_all isIdChar g then Some g
           else None))"

subsection \<open>Format detection\<close>

datatype format = Claude | Pi | Unknown

definition detectSessionFormat :: "runtime \<Rightarrow> string \<Rightarrow> format" where
  "detectSessionFormat rt firstLine =
     (case JSON_parse rt firstLine of
        None \<Rightarrow> Unknown
      | Some parsed \<Rightarrow>
          (case getProp (Some parsed) ''type'' of
             Inl e \<Rightarrow> Unknown
           | Inr ty \<Rightarrow>
               if ty = Some (JStr ''session'') \<and> field parsed ''version'' = Some (JNum 3) then Pi
               else if ty = Some (JStr ''user'') \<or> ty = Some (JStr ''assistant'') then Claude
               else Unknown))"

subsection \<open>The Claude normalizer\<close>

text \<open>The first loop: the lines that parse and are user or assistant records.\<close>

fun claudeMessages :: "runtime \<Rightarrow> string list \<Rightarrow> jsval list" where
  "claudeMessages rt [] = []"
| "claudeMessages rt (line # lines) =
     (case JSON_parse rt line of
        None \<Rightarrow> claudeMessages rt lines
      | Some parsed \<Rightarrow>
          (case getProp (Some parsed) ''type'' of
             Inl e \<Rightarrow> claudeMessages rt lines
           | Inr ty \<Rightarrow>
               if ty = Some (JStr ''user'') \<or> ty = Some (JStr ''assistant'')
               then parsed # claudeMessages rt lines
               else claudeMessages rt lines))"

definition claudeUser :: "jsval \<Rightarrow> accum \<Rightarrow> error + accum" where
  "claudeUser msg acc =
     bindE (getProp (field msg ''message'') ''content'') (\<lambda>content.
       case content of
         Some (JStr c) \<Rightarrow>
           Inr (if trim c \<noteq> [] then acc\<lparr>userMessages' := userMessages' acc @ [c]\<rparr> else acc)
       | _ \<Rightarrow> Inr acc)"

definition claudeUsage :: "jsval \<Rightarrow> error + Tokens" where
  "claudeUsage =
     readUsage ''input_tokens'' ''output_tokens''
       ''cache_creation_input_tokens'' ''cache_read_input_tokens''"

definition claudeAssistant :: "jsval \<Rightarrow> accum \<Rightarrow> error + accum" where
  "claudeAssistant msg acc =
     bindE (getProp (field msg ''message'') ''model'') (\<lambda>modelField.
     bindE (truthyString modelField) (\<lambda>model.
     bindE (getProp (field msg ''message'') ''usage'') (\<lambda>usage.
     bindE (accumulateUsage claudeUsage usage model (trackModel model acc)) (\<lambda>acc1.
     bindE (getProp (field msg ''message'') ''content'') (\<lambda>content.
       case content of
         Some (JArr blocks) \<Rightarrow>
           bindE (foldE extractFromContentBlock blocks
                    (toolsUsed' acc1, filesFromToolCalls' acc1)) (\<lambda>tf.
             Inr (acc1\<lparr>toolsUsed' := fst tf, filesFromToolCalls' := snd tf\<rparr>))
       | _ \<Rightarrow> Inr acc1)))))"

definition claudeStep :: "jsval \<Rightarrow> accum \<Rightarrow> error + accum" where
  "claudeStep msg acc =
     (if field msg ''type'' = Some (JStr ''user'') then claudeUser msg acc
      else if field msg ''type'' = Some (JStr ''assistant'') then claudeAssistant msg acc
      else Inr acc)"

definition parseClaudeSessionContent ::
  "runtime \<Rightarrow> string list \<Rightarrow> string option \<Rightarrow> error + ParsedSession option" where
  "parseClaudeSessionContent rt lines sid =
     (let messages = claudeMessages rt lines in
      if messages = [] then Inr None
      else
        (let firstMessage = hd messages; lastMessage = last messages in
         bindE (foldE claudeStep messages initialAccum) (\<lambda>acc.
         bindE (case matchSessionId sid of
                  Some g \<Rightarrow> Inr g
                | None \<Rightarrow> stringOr (field firstMessage ''sessionId'') ''unknown'') (\<lambda>ident.
         bindE (stringOr (field firstMessage ''gitBranch'') ''unknown'') (\<lambda>branch.
         bindE (stringOr (field firstMessage ''cwd'') []) (\<lambda>dir.
         bindE (stringOr (field firstMessage ''version'') []) (\<lambda>ver.
           Inr (Some
             \<lparr>id' = ident,
              startedAt = Date_new rt (field firstMessage ''timestamp''),
              endedAt = Date_new rt (field lastMessage ''timestamp''),
              gitBranch = branch,
              cwd = dir,
              version = ver,
              messageCount = length messages,
              inputTokens = inputTokens' acc,
              outputTokens = outputTokens' acc,
              cacheCreationTokens = cacheCreationTokens' acc,
              cacheReadTokens = cacheReadTokens' acc,
              userMessages = userMessages' acc,
              toolsUsed = toolsUsed' acc,
              filesFromToolCalls = filesFromToolCalls' acc,
              modelsUsed = modelsUsed' acc,
              modelTokens = modelTokens' acc\<rparr>))))))))"

subsection \<open>The Pi normalizer\<close>

fun piAllMessages :: "runtime \<Rightarrow> string list \<Rightarrow> jsval list" where
  "piAllMessages rt [] = []"
| "piAllMessages rt (line # lines) =
     (case JSON_parse rt line of
        None \<Rightarrow> piAllMessages rt lines
      | Some parsed \<Rightarrow> parsed # piAllMessages rt lines)"

text \<open>\<^verbatim>\<open>allMessages.find(m => m.type === 'session')\<close>\<close>

fun findSession :: "jsval list \<Rightarrow> error + jsval option" where
  "findSession [] = Inr None"
| "findSession (m # ms) =
     bindE (getProp (Some m) ''type'') (\<lambda>ty.
       if ty = Some (JStr ''session'') then Inr (Some m) else findSession ms)"

text \<open>\<^verbatim>\<open>m.message\<close> where it is truthy.\<close>

definition piMessage :: "jsval \<Rightarrow> jsval option" where
  "piMessage m = (if truthy (field m ''message'') then field m ''message'' else None)"

definition piRole :: "jsval \<Rightarrow> jsval option" where
  "piRole m = (case piMessage m of None \<Rightarrow> None | Some msg \<Rightarrow> field msg ''role'')"

definition isPiConversation :: "jsval \<Rightarrow> error + bool" where
  "isPiConversation m =
     bindE (getProp (Some m) ''type'') (\<lambda>ty.
       Inr (ty = Some (JStr ''message'') \<and> piMessage m \<noteq> None \<and>
            (piRole m = Some (JStr ''user'') \<or> piRole m = Some (JStr ''assistant''))))"

definition isModelChange :: "jsval \<Rightarrow> error + bool" where
  "isModelChange m =
     bindE (getProp (Some m) ''type'') (\<lambda>ty. Inr (ty = Some (JStr ''model_change'')))"

text \<open>\<^verbatim>\<open>m.type === 'message' && m.message?.role === 'toolResult'\<close>\<close>

definition isToolResult :: "jsval \<Rightarrow> error + bool" where
  "isToolResult m =
     bindE (getProp (Some m) ''type'') (\<lambda>ty.
       Inr (ty = Some (JStr ''message'') \<and>
            (case field m ''message'' of
               None \<Rightarrow> False
             | Some msg \<Rightarrow> field msg ''role'' = Some (JStr ''toolResult''))))"

definition piModelChange :: "jsval \<Rightarrow> accum \<Rightarrow> error + accum" where
  "piModelChange change acc =
     bindE (truthyString (field change ''modelId'')) (\<lambda>modelId.
       case modelId of
         None \<Rightarrow> Inr acc
       | Some m \<Rightarrow> Inr (acc\<lparr>modelsUsed' := setAdd m (modelsUsed' acc)\<rparr>))"

definition piUserBlock :: "jsval \<Rightarrow> string list \<Rightarrow> error + string list" where
  "piUserBlock block msgs =
     bindE (getProp (Some block) ''type'') (\<lambda>ty.
       if ty = Some (JStr ''text'') then
         bindE (truthyString (field block ''text'')) (\<lambda>text.
           case text of None \<Rightarrow> Inr msgs | Some t \<Rightarrow> Inr (msgs @ [t]))
       else Inr msgs)"

definition piUser :: "jsval \<Rightarrow> accum \<Rightarrow> error + accum" where
  "piUser msg acc =
     bindE (getProp (piMessage msg) ''content'') (\<lambda>content.
       case content of
         Some (JArr blocks) \<Rightarrow>
           bindE (foldE piUserBlock blocks (userMessages' acc)) (\<lambda>msgs.
             Inr (acc\<lparr>userMessages' := msgs\<rparr>))
       | _ \<Rightarrow> Inr acc)"

definition piUsage :: "jsval \<Rightarrow> error + Tokens" where
  "piUsage = readUsage ''input'' ''output'' ''cacheWrite'' ''cacheRead''"

definition piAssistant :: "jsval \<Rightarrow> accum \<Rightarrow> error + accum" where
  "piAssistant msg acc =
     bindE (getProp (piMessage msg) ''model'') (\<lambda>innerModel.
     bindE (truthyString (orElse (field msg ''model'') innerModel)) (\<lambda>model.
     bindE (getProp (piMessage msg) ''usage'') (\<lambda>innerUsage.
     bindE (accumulateUsage piUsage (orElse (field msg ''usage'') innerUsage) model
              (trackModel model acc)) (\<lambda>acc1.
     bindE (getProp (piMessage msg) ''content'') (\<lambda>content.
       case content of
         Some (JArr blocks) \<Rightarrow>
           bindE (foldE extractFromPiContentBlock blocks
                    (toolsUsed' acc1, filesFromToolCalls' acc1)) (\<lambda>tf.
             Inr (acc1\<lparr>toolsUsed' := fst tf, filesFromToolCalls' := snd tf\<rparr>))
       | _ \<Rightarrow> Inr acc1)))))"

definition piStep :: "jsval \<Rightarrow> accum \<Rightarrow> error + accum" where
  "piStep msg acc =
     (if piRole msg = Some (JStr ''user'') then piUser msg acc
      else if piRole msg = Some (JStr ''assistant'') then piAssistant msg acc
      else Inr acc)"

definition piToolResult :: "jsval \<Rightarrow> accum \<Rightarrow> error + accum" where
  "piToolResult result acc =
     bindE (truthyString (field result ''toolName'')) (\<lambda>toolName.
       case toolName of
         None \<Rightarrow> Inr acc
       | Some n \<Rightarrow> Inr (acc\<lparr>toolsUsed' := setAdd n (toolsUsed' acc)\<rparr>))"

text \<open>\<^verbatim>\<open>sessionMessage.version?.toString() || ''\<close>\<close>

definition piVersion :: "jsval \<Rightarrow> string" where
  "piVersion sessionMessage =
     (case field sessionMessage ''version'' of
        None \<Rightarrow> []
      | Some v \<Rightarrow> if v = JNull then [] else jsToString v)"

definition parsePiSessionContent ::
  "runtime \<Rightarrow> string list \<Rightarrow> string option \<Rightarrow> error + ParsedSession option" where
  "parsePiSessionContent rt lines sid =
     (let allMessages = piAllMessages rt lines in
      if allMessages = [] then Inr None
      else
        bindE (findSession allMessages) (\<lambda>found.
        bindE (filterE isPiConversation allMessages) (\<lambda>conversationMessages.
          case found of
            None \<Rightarrow> Inr None
          | Some sessionMessage \<Rightarrow>
              if conversationMessages = [] then Inr None
              else
                bindE (filterE isModelChange allMessages) (\<lambda>modelChanges.
                bindE (foldE piModelChange modelChanges initialAccum) (\<lambda>acc0.
                bindE (foldE piStep conversationMessages acc0) (\<lambda>acc1.
                bindE (filterE isToolResult allMessages) (\<lambda>toolResults.
                bindE (foldE piToolResult toolResults acc1) (\<lambda>acc.
                bindE (case matchSessionId sid of
                         Some g \<Rightarrow> Inr g
                       | None \<Rightarrow> stringOr (field sessionMessage ''id'') ''unknown'') (\<lambda>ident.
                bindE (stringOr (field sessionMessage ''cwd'') []) (\<lambda>dir.
                  (let firstMsg = hd conversationMessages;
                       lastMsg = last conversationMessages in
                   Inr (Some
                     \<lparr>id' = ident,
                      startedAt = Date_new rt (field firstMsg ''timestamp''),
                      endedAt = Date_new rt (field lastMsg ''timestamp''),
                      gitBranch = ''unknown'',
                      cwd = dir,
                      version = piVersion sessionMessage,
                      messageCount = length conversationMessages,
                      inputTokens = inputTokens' acc,
                      outputTokens = outputTokens' acc,
                      cacheCreationTokens = cacheCreationTokens' acc,
                      cacheReadTokens = cacheReadTokens' acc,
                      userMessages = userMessages' acc,
                      toolsUsed = toolsUsed' acc,
                      filesFromToolCalls = filesFromToolCalls' acc,
                      modelsUsed = modelsUsed' acc,
                      modelTokens = modelTokens' acc\<rparr>))))))))))))"

subsection \<open>The entry points\<close>

text \<open>\<^verbatim>\<open>content.trim().split('\n').filter(Boolean)\<close>\<close>

definition contentLines :: "string \<Rightarrow> string list" where
  "contentLines content = filter (\<lambda>l. l \<noteq> []) (splitOn (CHR 0x0A) [] (trim content))"

definition parseSessionContent ::
  "runtime \<Rightarrow> string \<Rightarrow> string option \<Rightarrow> error + ParsedSession option" where
  "parseSessionContent rt content sid =
     (let lines = contentLines content in
      if lines = [] then Inr None
      else
        (case detectSessionFormat rt (hd lines) of
           Pi \<Rightarrow> parsePiSessionContent rt lines sid
         | Claude \<Rightarrow> parseClaudeSessionContent rt lines sid
         | Unknown \<Rightarrow> Inr None))"

text \<open>
  \<^verbatim>\<open>parseSessionFile\<close> turns every exception into \<^verbatim>\<open>null\<close>: an unreadable
  file and a \<open>TypeError\<close> of the normalizer alike.
\<close>

definition parseSessionFile :: "runtime \<Rightarrow> string \<Rightarrow> error + ParsedSession option" where
  "parseSessionFile rt filePath =
     (case readFileSync rt filePath of
        None \<Rightarrow> Inr None
      | Some content \<Rightarrow>
          (case parseSessionContent rt content (Some filePath) of
             Inl TypeError \<Rightarrow> Inr None
           | Inl IllTyped \<Rightarrow> Inl IllTyped
           | Inr r \<Rightarrow> Inr r))"

section \<open>file-based/search-lib.ts\<close>

subsection \<open>Relevance\<close>

text \<open>
  The loops of \<^verbatim>\<open>scoreRelevance\<close> carry the two locals \<^verbatim>\<open>score\<close> and
  \<^verbatim>\<open>matchedOn\<close>. \<open>scoreTerms\<close> is the inner loop over the query terms for
  one lower-cased item, \<open>scoreItems\<close> the outer loop over a field.
\<close>

fun scoreTerms ::
  "int \<Rightarrow> string \<Rightarrow> string \<Rightarrow> string list \<Rightarrow> int \<times> string list \<Rightarrow> int \<times> string list" where
  "scoreTerms w label itemLower [] st = st"
| "scoreTerms w label itemLower (term # terms) st =
     scoreTerms w label itemLower terms
       (if stringIncludes itemLower term
        then (fst st + w, if label \<in> set (snd st) then snd st else snd st @ [label])
        else st)"

fun scoreItems ::
  "int \<Rightarrow> string \<Rightarrow> string list \<Rightarrow> string list \<Rightarrow> int \<times> string list \<Rightarrow> int \<times> string list" where
  "scoreItems w label [] terms st = st"
| "scoreItems w label (item # items) terms st =
     scoreItems w label items terms (scoreTerms w label (toLowerCase item) terms st)"

definition queryTerms :: "string \<Rightarrow> string list" where
  "queryTerms q = filter (\<lambda>t. t \<noteq> []) (splitWhitespace [] (toLowerCase q))"

text \<open>The values of \<^verbatim>\<open>score\<close> and \<^verbatim>\<open>matchedOn\<close> when the three loops end.\<close>

definition scoreLocals :: "ParsedSession \<Rightarrow> string \<Rightarrow> int \<times> string list" where
  "scoreLocals s q =
     scoreItems 3 ''filesFromToolCalls'' (filesFromToolCalls s) (queryTerms q)
       (scoreItems 3 ''toolsUsed'' (toolsUsed s) (queryTerms q)
          (scoreItems 10 ''userMessages'' (userMessages s) (queryTerms q) (0, [])))"

definition scoreRelevance :: "ParsedSession \<Rightarrow> string \<Rightarrow> int" where
  "scoreRelevance s q = (if q = [] then 1 else fst (scoreLocals s q))"

subsection \<open>Filters\<close>

text \<open>\<open>now\<close> is the time value of the \<^verbatim>\<open>new Date()\<close> the call starts with.\<close>

definition sinceBound :: "int \<Rightarrow> SearchOptions \<Rightarrow> Date option" where
  "sinceBound now opts =
     (case days opts of
        None \<Rightarrow> since opts
      | Some d \<Rightarrow>
          if d \<noteq> 0 \<and> since opts = None then Some (timeClip (now - d * 24 * 60 * 60 * 1000))
          else since opts)"

definition hasMatchingTool :: "ParsedSession \<Rightarrow> string list \<Rightarrow> bool" where
  "hasMatchingTool s ts =
     list_ex (\<lambda>tool. list_ex (\<lambda>t. stringIncludes (toLowerCase t) (toLowerCase tool)) (toolsUsed s)) ts"

definition hasMatchingFile :: "ParsedSession \<Rightarrow> string \<Rightarrow> bool" where
  "hasMatchingFile s pat =
     list_ex (\<lambda>f. stringIncludes (toLowerCase f) (toLowerCase pat)) (filesFromToolCalls s)"

definition matchesFilters :: "int \<Rightarrow> ParsedSession \<Rightarrow> SearchOptions \<Rightarrow> bool" where
  "matchesFilters now s opts =
     (if (case sinceBound now opts of None \<Rightarrow> False | Some b \<Rightarrow> dateLess (endedAt s) b) then False
      else if (case until opts of None \<Rightarrow> False | Some u \<Rightarrow> dateLess u (endedAt s)) then False
      else if (case tools opts of None \<Rightarrow> False | Some ts \<Rightarrow> ts \<noteq> [] \<and> \<not> hasMatchingTool s ts)
        then False
      else if (case filePattern opts of
                 None \<Rightarrow> False
               | Some pat \<Rightarrow> pat \<noteq> [] \<and> \<not> hasMatchingFile s pat) then False
      else True)"

subsection \<open>Turning files into results\<close>

text \<open>
  \<open>clock i\<close> is the time at which the \<open>i\<close>-th path of the list is handled:
  every call of \<^verbatim>\<open>matchesFilters\<close> reads the clock anew.
\<close>

fun processSessionFiles ::
  "runtime \<Rightarrow> (nat \<Rightarrow> int) \<Rightarrow> string list \<Rightarrow> SearchOptions \<Rightarrow> error + SearchResult list" where
  "processSessionFiles rt clock [] opts = Inr []"
| "processSessionFiles rt clock (filePath # rest) opts =
     bindE (parseSessionFile rt filePath) (\<lambda>parsed.
     bindE (processSessionFiles rt (\<lambda>i. clock (Suc i)) rest opts) (\<lambda>others.
       case parsed of
         None \<Rightarrow> Inr others
       | Some s \<Rightarrow>
           if userMessages s = [] then Inr others
           else if \<not> matchesFilters (clock 0) s opts then Inr others
           else
             (let rel = (case query opts of
                           None \<Rightarrow> 1
                         | Some q \<Rightarrow> if q = [] then 1 else scoreRelevance s q) in
              if (case query opts of None \<Rightarrow> False | Some q \<Rightarrow> q \<noteq> []) \<and> rel = 0
              then Inr others
              else Inr (\<lparr>session = s, relevance = Some rel, matchedOn = None,
                          transcriptPath = filePath\<rparr> # others))))"

subsection \<open>The search\<close>

definition findSessionDirs :: "runtime \<Rightarrow> string \<Rightarrow> string list" where
  "findSessionDirs rt baseDir =
     (case readdirSync rt baseDir of
        None \<Rightarrow> []
      | Some names \<Rightarrow> filter (isDirectory rt) (map (pathJoin rt baseDir) names))"

definition findSessionFiles :: "runtime \<Rightarrow> string \<Rightarrow> SearchOptions \<Rightarrow> string list" where
  "findSessionFiles rt dir opts =
     (case readdirSync rt dir of
        None \<Rightarrow> []
      | Some names \<Rightarrow> map (pathJoin rt dir) (filter (\<lambda>f. endsWith f ''.jsonl'') names))"

text \<open>
  The state of the directory loop: how many paths have been handled so far
  (the position of the clock) and the \<^verbatim>\<open>results\<close> array.
\<close>

type_synonym searchState = "nat \<times> SearchResult list"

text \<open>\<^verbatim>\<open>results.push(...processSessionFiles(files, options))\<close>\<close>

definition pushFiles ::
  "runtime \<Rightarrow> (nat \<Rightarrow> int) \<Rightarrow> SearchOptions \<Rightarrow> string list \<Rightarrow> searchState \<Rightarrow> error + searchState" where
  "pushFiles rt clock opts files st =
     bindE (processSessionFiles rt (\<lambda>i. clock (fst st + i)) files opts) (\<lambda>found.
       Inr (fst st + length files, snd st @ found))"

definition searchDirs ::
  "runtime \<Rightarrow> (nat \<Rightarrow> int) \<Rightarrow> SearchOptions \<Rightarrow> string list \<Rightarrow> searchState \<Rightarrow> error + searchState" where
  "searchDirs rt clock opts dirs st =
     foldE (\<lambda>dir. pushFiles rt clock opts (findSessionFiles rt dir opts)) dirs st"

definition searchBase ::
  "runtime \<Rightarrow> (nat \<Rightarrow> int) \<Rightarrow> SearchOptions \<Rightarrow> string \<Rightarrow> searchState \<Rightarrow> error + searchState" where
  "searchBase rt clock opts baseDir st =
     (if baseDir = DEFAULT_CLAUDE_SESSIONS_DIR rt \<or> endsWith baseDir ''.claude/projects''
      then searchDirs rt clock opts (findSessionDirs rt baseDir) st
      else if baseDir = DEFAULT_PI_SESSIONS_DIR rt \<or> endsWith baseDir ''.pi/agent/sessions''
      then
        (if findSessionDirs rt baseDir \<noteq> []
         then searchDirs rt clock opts (findSessionDirs rt baseDir) st
         else pushFiles rt clock opts (findSessionFiles rt baseDir opts) st)
      else
        bindE (searchDirs rt clock opts (findSessionDirs rt baseDir) st)
          (pushFiles rt clock opts (findSessionFiles rt baseDir opts)))"

text \<open>The \<^verbatim>\<open>results\<close> array when the loop over the directories ends.\<close>

definition collectResults ::
  "runtime \<Rightarrow> (nat \<Rightarrow> int) \<Rightarrow> string list \<Rightarrow> SearchOptions \<Rightarrow> error + SearchResult list" where
  "collectResults rt clock dirs opts =
     bindE (foldE (searchBase rt clock opts) dirs (0, [])) (\<lambda>st. Inr (snd st))"

text \<open>The comparator; \<open>None\<close> is NaN, the difference of an invalid date.\<close>

definition getTime :: "Date \<Rightarrow> int option" where
  "getTime d = (case d of InvalidDate \<Rightarrow> None | Time t \<Rightarrow> Some t)"

definition relevanceOrZero :: "SearchResult \<Rightarrow> int" where
  "relevanceOrZero r = (case relevance r of None \<Rightarrow> 0 | Some n \<Rightarrow> n)"

definition compareResults :: "SearchResult \<Rightarrow> SearchResult \<Rightarrow> int option" where
  "compareResults a b =
     (if relevance a \<noteq> relevance b then Some (relevanceOrZero b - relevanceOrZero a)
      else
        (case (getTime (endedAt (session b)), getTime (endedAt (session a))) of
           (Some tb, Some ta) \<Rightarrow> Some (tb - ta)
         | _ \<Rightarrow> None))"

text \<open>
  \<^verbatim>\<open>Array.prototype.sort\<close> is stable and reads a NaN from the comparator as
  0. On a comparator that is consistent over the array, every stable sort
  returns what this insertion sort returns; on another comparator the order
  is left to the implementation, and this is one admissible outcome.
\<close>

fun insertSorted :: "('a \<Rightarrow> 'a \<Rightarrow> int option) \<Rightarrow> 'a \<Rightarrow> 'a list \<Rightarrow> 'a list" where
  "insertSorted cmp x [] = [x]"
| "insertSorted cmp x (y # ys) =
     (if (case cmp x y of None \<Rightarrow> 0 | Some n \<Rightarrow> n) \<le> 0 then x # y # ys
      else y # insertSorted cmp x ys)"

definition arraySort :: "('a \<Rightarrow> 'a \<Rightarrow> int option) \<Rightarrow> 'a list \<Rightarrow> 'a list" where
  "arraySort cmp xs = foldr (insertSorted cmp) xs []"

text \<open>\<^verbatim>\<open>xs.slice(0, n)\<close>\<close>

definition sliceTo :: "'a list \<Rightarrow> int \<Rightarrow> 'a list" where
  "sliceTo xs n = (if n < 0 then take (nat (int (length xs) + n)) xs else take (nat n) xs)"

text \<open>\<^verbatim>\<open>options.limit || 20\<close>\<close>

definition limitOrDefault :: "SearchOptions \<Rightarrow> int" where
  "limitOrDefault opts = (case limit opts of None \<Rightarrow> 20 | Some n \<Rightarrow> if n = 0 then 20 else n)"

definition searchSessions ::
  "runtime \<Rightarrow> (nat \<Rightarrow> int) \<Rightarrow> string list \<Rightarrow> SearchOptions \<Rightarrow> error + SearchResult list" where
  "searchSessions rt clock dirs opts =
     bindE (collectResults rt clock dirs opts) (\<lambda>results.
       Inr (sliceTo (arraySort compareResults results) (limitOrDefault opts)))"

section \<open>Definitions for stating the properties\<close>

subsection \<open>Which argument values are file paths\<close>

text \<open>
  \<open>scannedPath kvs p\<close>: the string \<open>p\<close> sits under a path key, contains a
  separator, and is reached from the argument object \<open>kvs\<close> through plain
  objects only.
\<close>

inductive scannedPath :: "(string \<times> jsval) list \<Rightarrow> string \<Rightarrow> bool" where
  direct: "(k, JStr p) \<in> set kvs \<Longrightarrow> k \<in> set pathKeys \<Longrightarrow> looksLikePath p \<Longrightarrow> scannedPath kvs p"
| nested: "(k, JObj inner) \<in> set kvs \<Longrightarrow> scannedPath inner p \<Longrightarrow> scannedPath kvs p"

text \<open>
  \<open>claimedPath\<close> follows the wording that nested objects found inside arrays
  are entered as well.
\<close>

inductive claimedPath :: "(string \<times> jsval) list \<Rightarrow> string \<Rightarrow> bool" where
  direct: "(k, JStr p) \<in> set kvs \<Longrightarrow> k \<in> set pathKeys \<Longrightarrow> looksLikePath p \<Longrightarrow> claimedPath kvs p"
| nested: "(k, JObj inner) \<in> set kvs \<Longrightarrow> claimedPath inner p \<Longrightarrow> claimedPath kvs p"
| inArray:
    "(k, JArr xs) \<in> set kvs \<Longrightarrow> JObj inner \<in> set xs \<Longrightarrow> claimedPath inner p \<Longrightarrow> claimedPath kvs p"

definition headPath :: "string \<Rightarrow> jsval \<Rightarrow> string \<Rightarrow> bool" where
  "headPath k v p = (v = JStr p \<and> k \<in> set pathKeys \<and> looksLikePath p)"

text \<open>Two argument objects: \<^verbatim>\<open>{edits: [{file_path: "src/a.ts"}]}\<close> and
  \<^verbatim>\<open>{file_path: "src/a.ts", options: {path: "lib/b.ts", name: "x/y", file: "plain"},
  edits: [{file_path: "c/d.ts"}], tags: ["e/f"]}\<close>.\<close>

definition editsArgs :: "(string \<times> jsval) list" where
  "editsArgs = [(''edits'', JArr [JObj [(''file_path'', JStr ''src/a.ts'')]])]"

definition nestedArgs :: "(string \<times> jsval) list" where
  "nestedArgs =
     [(''file_path'', JStr ''src/a.ts''),
      (''options'', JObj [(''path'', JStr ''lib/b.ts''), (''name'', JStr ''x/y''),
                          (''file'', JStr ''plain'')]),
      (''edits'', JArr [JObj [(''file_path'', JStr ''c/d.ts'')]]),
      (''tags'', JArr [JStr ''e/f''])]"

subsection \<open>The order of search results\<close>

text \<open>
  \<open>rankedBefore a b\<close>: \<open>a\<close> may stand before \<open>b\<close>, by the higher score or,
  at equal scores, by the end time that is not earlier. \<open>sameRank\<close>: equal
  score and equal end time. \<open>rankKey\<close> orders results the same way through
  the lexicographic order on pairs.
\<close>

definition rankedBefore :: "SearchResult \<Rightarrow> SearchResult \<Rightarrow> bool" where
  "rankedBefore a b =
     (relevanceOrZero b < relevanceOrZero a \<or>
      (relevanceOrZero a = relevanceOrZero b \<and>
       dateLessEq (endedAt (session b)) (endedAt (session a))))"

definition sameRank :: "SearchResult \<Rightarrow> SearchResult \<Rightarrow> bool" where
  "sameRank a b = (relevance a = relevance b \<and> endedAt (session a) = endedAt (session b))"

definition validResult :: "SearchResult \<Rightarrow> bool" where
  "validResult r = (relevance r \<noteq> None \<and> endedAt (session r) \<noteq> InvalidDate)"

definition rankKey :: "SearchResult \<Rightarrow> int \<times> int" where
  "rankKey r =
     (- relevanceOrZero r, - (case endedAt (session r) of InvalidDate \<Rightarrow> 0 | Time t \<Rightarrow> t))"

text \<open>Every result collected so far carries a score.\<close>

definition scored :: "searchState \<Rightarrow> bool" where
  "scored st = (\<forall>r \<in> set (snd st). relevance r \<noteq> None)"

subsection \<open>Conversational turns\<close>

text \<open>
  \<open>parsedLines\<close>: the values of the lines that parse, in order. A Claude turn
  is a record whose type is user or assistant; a Pi turn is a message record
  whose message has the role user or assistant. \<open>conversationalTurns\<close> are
  the turns of a transcript in the dialect its first line announces.
\<close>

definition parsedLines :: "runtime \<Rightarrow> string \<Rightarrow> jsval list" where
  "parsedLines rt content = List.map_filter (JSON_parse rt) (contentLines content)"

definition isClaudeTurn :: "jsval \<Rightarrow> bool" where
  "isClaudeTurn v =
     (field v ''type'' = Some (JStr ''user'') \<or> field v ''type'' = Some (JStr ''assistant''))"

definition isPiTurn :: "jsval \<Rightarrow> bool" where
  "isPiTurn v =
     (field v ''type'' = Some (JStr ''message'') \<and>
      (piRole v = Some (JStr ''user'') \<or> piRole v = Some (JStr ''assistant'')))"

definition transcriptFormat :: "runtime \<Rightarrow> string \<Rightarrow> format" where
  "transcriptFormat rt content =
     (case contentLines content of [] \<Rightarrow> Unknown | l # ls \<Rightarrow> detectSessionFormat rt l)"

definition conversationalTurns :: "runtime \<Rightarrow> string \<Rightarrow> jsval list" where
  "conversationalTurns rt content =
     (case transcriptFormat rt content of
        Claude \<Rightarrow> filter isClaudeTurn (parsedLines rt content)
      | Pi \<Rightarrow> filter isPiTurn (parsedLines rt content)
      | Unknown \<Rightarrow> [])"

subsection \<open>Token accounting\<close>

text \<open>
  \<open>modelSum f m\<close> adds the counter \<open>f\<close> over all entries of the per-model
  mapping. \<open>namesModel\<close>: the model field is a non-empty string that is not
  the name of a property every object inherits. An assistant turn is
  \<open>attributed\<close> when it carries no usage or names a model.
\<close>

definition modelSum :: "(Tokens \<Rightarrow> int) \<Rightarrow> (string \<times> Tokens) list \<Rightarrow> int" where
  "modelSum f m = sum_list (map (\<lambda>e. f (snd e)) m)"

definition balanced :: "accum \<Rightarrow> bool" where
  "balanced acc =
     (inputTokens' acc = modelSum input_n (modelTokens' acc) \<and>
      outputTokens' acc = modelSum output_n (modelTokens' acc) \<and>
      cacheCreationTokens' acc = modelSum cacheCreation_n (modelTokens' acc) \<and>
      cacheReadTokens' acc = modelSum cacheRead_n (modelTokens' acc))"






subsection \<open>User messages\<close>

definition nonBlank :: "accum \<Rightarrow> bool" where
  "nonBlank acc = list_all (\<lambda>m. trim m \<noteq> []) (userMessages' acc)"

definition nonEmpty :: "accum \<Rightarrow> bool" where
  "nonEmpty acc = list_all (\<lambda>m. m \<noteq> []) (userMessages' acc)"

section \<open>Example transcripts\<close>

text \<open>
  Lines of transcripts, each with the value \<^verbatim>\<open>JSON.parse\<close> gives for it.
  \<open>exampleRuntime\<close> is a runtime whose \<open>JSON_parse\<close> and \<open>Date_new\<close> agree
  with JavaScript on these lines and on their timestamps, and whose file
  system holds a few transcripts built from them.
\<close>

definition userLine :: string where
  \<open>userLine = ''{"type":"user","sessionId":"s1","timestamp":"2024-02-20T10:00:00Z","message":{"role":"user","content":"Let's build an email filtering system"}}''\<close>

definition userRecord :: jsval where
  "userRecord =
     JObj [(''type'', JStr ''user''), (''sessionId'', JStr ''s1''),
           (''timestamp'', JStr ''2024-02-20T10:00:00Z''),
           (''message'', JObj [(''role'', JStr ''user''),
              (''content'', JStr ''Let's build an email filtering system'')])]"

definition editLine :: string where
  \<open>editLine = ''{"type":"assistant","timestamp":"2024-02-20T10:05:00Z","message":{"role":"assistant","model":"claude-3-5-sonnet","usage":{"input_tokens":100,"output_tokens":50},"content":[{"type":"tool_use","name":"Edit","input":{"file_path":"src/api/email.ts"}}]}}''\<close>

definition editRecord :: jsval where
  "editRecord =
     JObj [(''type'', JStr ''assistant''), (''timestamp'', JStr ''2024-02-20T10:05:00Z''),
           (''message'', JObj [(''role'', JStr ''assistant''),
              (''model'', JStr ''claude-3-5-sonnet''),
              (''usage'', JObj [(''input_tokens'', JNum 100), (''output_tokens'', JNum 50)]),
              (''content'', JArr [JObj [(''type'', JStr ''tool_use''), (''name'', JStr ''Edit''),
                 (''input'', JObj [(''file_path'', JStr ''src/api/email.ts'')])]])])]"

text \<open>An assistant turn with usage and no model, and one stamped an hour before \<open>userLine\<close>.\<close>

definition noModelLine :: string where
  \<open>noModelLine = ''{"type":"assistant","timestamp":"2024-02-20T10:05:00Z","message":{"role":"assistant","usage":{"input_tokens":5},"content":[]}}''\<close>

definition noModelRecord :: jsval where
  "noModelRecord =
     JObj [(''type'', JStr ''assistant''), (''timestamp'', JStr ''2024-02-20T10:05:00Z''),
           (''message'', JObj [(''role'', JStr ''assistant''),
              (''usage'', JObj [(''input_tokens'', JNum 5)]),
              (''content'', JArr [])])]"

definition earlyLine :: string where
  \<open>earlyLine = ''{"type":"assistant","timestamp":"2024-02-20T09:00:00Z","message":{"role":"assistant","content":[]}}''\<close>

definition earlyRecord :: jsval where
  "earlyRecord =
     JObj [(''type'', JStr ''assistant''), (''timestamp'', JStr ''2024-02-20T09:00:00Z''),
           (''message'', JObj [(''role'', JStr ''assistant''), (''content'', JArr [])])]"

definition summaryLine :: string where
  \<open>summaryLine = ''{"type":"summary","summary":"Email filter"}''\<close>

definition summaryRecord :: jsval where
  "summaryRecord = JObj [(''type'', JStr ''summary''), (''summary'', JStr ''Email filter'')]"

text \<open>A line that \<^verbatim>\<open>JSON.parse\<close> rejects.\<close>

definition brokenLine :: string where
  \<open>brokenLine = ''{"type":"user","mess''\<close>

text \<open>Pi lines: the session header, a model change, user turns, an assistant turn.\<close>

definition piSessionLine :: string where
  \<open>piSessionLine = ''{"type":"session","version":3,"id":"p1","cwd":"/work"}''\<close>

definition piSessionRecord :: jsval where
  "piSessionRecord =
     JObj [(''type'', JStr ''session''), (''version'', JNum 3), (''id'', JStr ''p1''),
           (''cwd'', JStr ''/work'')]"

definition piModelChangeLine :: string where
  \<open>piModelChangeLine = ''{"type":"model_change","id":"c1","modelId":"claude-sonnet-4"}''\<close>

definition piModelChangeRecord :: jsval where
  "piModelChangeRecord =
     JObj [(''type'', JStr ''model_change''), (''id'', JStr ''c1''),
           (''modelId'', JStr ''claude-sonnet-4'')]"

definition piUserLine :: string where
  \<open>piUserLine = ''{"type":"message","timestamp":"2024-02-20T10:00:00Z","message":{"role":"user","content":[{"type":"text","text":"Create an overseer"}]}}''\<close>

definition piUserRecord :: jsval where
  "piUserRecord =
     JObj [(''type'', JStr ''message''), (''timestamp'', JStr ''2024-02-20T10:00:00Z''),
           (''message'', JObj [(''role'', JStr ''user''),
              (''content'', JArr [JObj [(''type'', JStr ''text''),
                 (''text'', JStr ''Create an overseer'')]])])]"

definition piBlankLine :: string where
  \<open>piBlankLine = ''{"type":"message","timestamp":"2024-02-20T10:00:00Z","message":{"role":"user","content":[{"type":"text","text":"   "}]}}''\<close>

definition piBlankRecord :: jsval where
  "piBlankRecord =
     JObj [(''type'', JStr ''message''), (''timestamp'', JStr ''2024-02-20T10:00:00Z''),
           (''message'', JObj [(''role'', JStr ''user''),
              (''content'', JArr [JObj [(''type'', JStr ''text''), (''text'', JStr ''   '')]])])]"

definition piAssistantLine :: string where
  \<open>piAssistantLine = ''{"type":"message","timestamp":"2024-02-20T10:05:00Z","message":{"role":"assistant","model":"claude-sonnet-4","usage":{"input":120,"output":85,"cacheRead":7,"cacheWrite":300},"content":[{"type":"toolCall","name":"write","arguments":{"path":"src/overseer.ts"}}]}}''\<close>

definition piAssistantRecord :: jsval where
  "piAssistantRecord =
     JObj [(''type'', JStr ''message''), (''timestamp'', JStr ''2024-02-20T10:05:00Z''),
           (''message'', JObj [(''role'', JStr ''assistant''),
              (''model'', JStr ''claude-sonnet-4''),
              (''usage'', JObj [(''input'', JNum 120), (''output'', JNum 85),
                 (''cacheRead'', JNum 7), (''cacheWrite'', JNum 300)]),
              (''content'', JArr [JObj [(''type'', JStr ''toolCall''), (''name'', JStr ''write''),
                 (''arguments'', JObj [(''path'', JStr ''src/overseer.ts'')])]])])]"

text \<open>A Claude user turn whose text is three spaces.\<close>

definition blankUserLine :: string where
  \<open>blankUserLine = ''{"type":"user","timestamp":"2024-02-20T10:00:00Z","message":{"role":"user","content":"   "}}''\<close>

definition blankUserRecord :: jsval where
  "blankUserRecord =
     JObj [(''type'', JStr ''user''), (''timestamp'', JStr ''2024-02-20T10:00:00Z''),
           (''message'', JObj [(''role'', JStr ''user''), (''content'', JStr ''   '')])]"

definition exampleParse :: "string \<Rightarrow> jsval option" where
  "exampleParse =
     map_of [(userLine, userRecord), (editLine, editRecord), (noModelLine, noModelRecord),
             (earlyLine, earlyRecord), (summaryLine, summaryRecord),
             (piSessionLine, piSessionRecord), (piModelChangeLine, piModelChangeRecord),
             (piUserLine, piUserRecord), (piBlankLine, piBlankRecord),
             (piAssistantLine, piAssistantRecord), (blankUserLine, blankUserRecord)]"

definition exampleDate :: "jsval option \<Rightarrow> Date" where
  "exampleDate v =
     (if v = Some (JStr ''2024-02-20T09:00:00Z'') then Time 1708419600000
      else if v = Some (JStr ''2024-02-20T10:00:00Z'') then Time 1708423200000
      else if v = Some (JStr ''2024-02-20T10:05:00Z'') then Time 1708423500000
      else InvalidDate)"

text \<open>Transcripts: lines joined by a line feed.\<close>

definition joinLines :: "string list \<Rightarrow> string" where
  "joinLines ls = concat (map (\<lambda>l. l @ [CHR 0x0A]) ls)"

definition emailTranscript :: string where
  "emailTranscript = joinLines [userLine, editLine]"

definition exampleFiles :: "string \<Rightarrow> string option" where
  "exampleFiles =
     map_of [(''/sessions/email.jsonl'', emailTranscript),
             (''/sessions/pi.jsonl'', joinLines [piSessionLine, piUserLine, piAssistantLine]),
             (''/sessions/late.jsonl'', joinLines [userLine, earlyLine])]"

definition exampleRuntime :: runtime where
  "exampleRuntime =
     \<lparr>JSON_parse = exampleParse, Date_new = exampleDate, readFileSync = exampleFiles,
      readdirSync =
        map_of [(''/sessions'', [''late.jsonl'', ''notes.txt'', ''email.jsonl'', ''pi.jsonl''])],
      isDirectory = (\<lambda>p. p = ''/sessions''),
      pathJoin = (\<lambda>a b. a @ ''/'' @ b),
      DEFAULT_CLAUDE_SESSIONS_DIR = ''/home/u/.claude/projects'',
      DEFAULT_PI_SESSIONS_DIR = ''/home/u/.pi/agent/sessions''\<rparr>"

text \<open>\<^verbatim>\<open>{}\<close> as search options.\<close>

definition noOptions :: SearchOptions where
  "noOptions =
     \<lparr>query = None, days = None, since = None, until = None, tools = None,
      filePattern = None, limit = None, source = None, directories = None\<rparr>"

text \<open>The record the Claude normalizer returns for \<open>emailTranscript\<close>.\<close>

definition emailSession :: ParsedSession where
  "emailSession =
     \<lparr>id' = ''s1'', startedAt = Time 1708423200000, endedAt = Time 1708423500000,
      gitBranch = ''unknown'', cwd = [], version = [], messageCount = 2,
      inputTokens = 100, outputTokens = 50, cacheCreationTokens = 0, cacheReadTokens = 0,
      userMessages = [''Let's build an email filtering system''],
      toolsUsed = [''Edit''], filesFromToolCalls = [''src/api/email.ts''],
      modelsUsed = [''claude-3-5-sonnet''],
      modelTokens =
        [(''claude-3-5-sonnet'',
          \<lparr>input_n = 100, output_n = 50, cacheCreation_n = 0, cacheRead_n = 0\<rparr>)]\<rparr>"

text \<open>The records for the two other transcripts of \<open>exampleFiles\<close>.\<close>

definition piSession :: ParsedSession where
  "piSession =
     \<lparr>id' = ''p1'', startedAt = Time 1708423200000, endedAt = Time 1708423500000,
      gitBranch = ''unknown'', cwd = ''/work'', version = ''3'', messageCount = 2,
      inputTokens = 120, outputTokens = 85, cacheCreationTokens = 300, cacheReadTokens = 7,
      userMessages = [''Create an overseer''],
      toolsUsed = [''write''], filesFromToolCalls = [''src/overseer.ts''],
      modelsUsed = [''claude-sonnet-4''],
      modelTokens =
        [(''claude-sonnet-4'',
          \<lparr>input_n = 120, output_n = 85, cacheCreation_n = 300, cacheRead_n = 7\<rparr>)]\<rparr>"

definition lateSession :: ParsedSession where
  "lateSession =
     \<lparr>id' = ''s1'', startedAt = Time 1708423200000, endedAt = Time 1708419600000,
      gitBranch = ''unknown'', cwd = [], version = [], messageCount = 2,
      inputTokens = 0, outputTokens = 0, cacheCreationTokens = 0, cacheReadTokens = 0,
      userMessages = [''Let's build an email filtering system''],
      toolsUsed = [], filesFromToolCalls = [], modelsUsed = [], modelTokens = []\<rparr>"

definition exampleClock :: "nat \<Rightarrow> int" where
  "exampleClock i = 1708500000000 + int i"

definition asResult :: "ParsedSession \<Rightarrow> string \<Rightarrow> SearchResult" where
  "asResult s p = \<lparr>session = s, relevance = Some 1, matchedOn = None, transcriptPath = p\<rparr>"


text \<open>The record for the Pi transcript of \<open>piSessionLine\<close> and \<open>piBlankLine\<close>.\<close>

definition blankSession :: ParsedSession where
  "blankSession =
     \<lparr>id' = ''p1'', startedAt = Time 1708423200000, endedAt = Time 1708423200000,
      gitBranch = ''unknown'', cwd = ''/work'', version = ''3'', messageCount = 1,
      inputTokens = 0, outputTokens = 0, cacheCreationTokens = 0, cacheReadTokens = 0,
      userMessages = [''   ''],
      toolsUsed = [], filesFromToolCalls = [], modelsUsed = [], modelTokens = []\<rparr>"

section \<open>Lemmas\<close>

subsection \<open>Results and errors\<close>

lemma bindE_Inr_iff: "bindE m f = Inr y \<longleftrightarrow> (\<exists>x. m = Inr x \<and> f x = Inr y)"
  by (cases m) (simp_all add: bindE_def)

lemma bindE_Inr [simp]: "bindE (Inr x) f = f x"
  by (simp add: bindE_def)

lemma bindE_Inl [simp]: "bindE (Inl e) f = Inl e"
  by (simp add: bindE_def)

subsection \<open>File paths in tool arguments\<close>

lemma set_setAdd: "set (setAdd x xs) = insert x (set xs)"
  by (auto simp: setAdd_def)

lemma scannedPath_Nil: "\<not> scannedPath [] p"
proof
  assume "scannedPath [] p"
  then show False by (cases rule: scannedPath.cases) simp_all
qed

lemma scannedPath_mono:
  assumes "scannedPath kvs p" and "set kvs \<subseteq> set kvs'"
  shows "scannedPath kvs' p"
  using assms(1)
proof (cases rule: scannedPath.cases)
  case (direct k)
  from direct(1) assms(2) have "(k, JStr p) \<in> set kvs'" by blast
  then show ?thesis using direct(2,3) by (rule scannedPath.direct)
next
  case (nested k inner)
  from nested(1) assms(2) have "(k, JObj inner) \<in> set kvs'" by blast
  then show ?thesis using nested(2) by (rule scannedPath.nested)
qed

lemma scannedPath_Cons:
  "scannedPath ((k, v) # rest) p \<longleftrightarrow>
     headPath k v p \<or> (\<exists>inner. v = JObj inner \<and> scannedPath inner p) \<or> scannedPath rest p"
  (is "?L \<longleftrightarrow> ?R")
proof
  assume ?L
  then show ?R
  proof (cases rule: scannedPath.cases)
    case (direct k')
    from direct(1) have "(k' = k \<and> v = JStr p) \<or> (k', JStr p) \<in> set rest"
      by auto
    then show ?thesis
    proof
      assume "k' = k \<and> v = JStr p"
      with direct(2,3) have "headPath k v p" by (simp add: headPath_def)
      then show ?thesis by blast
    next
      assume "(k', JStr p) \<in> set rest"
      then have "scannedPath rest p" using direct(2,3) by (rule scannedPath.direct)
      then show ?thesis by blast
    qed
  next
    case (nested k' inner)
    from nested(1) have "(k' = k \<and> v = JObj inner) \<or> (k', JObj inner) \<in> set rest"
      by auto
    then show ?thesis
    proof
      assume "k' = k \<and> v = JObj inner"
      with nested(2) show ?thesis by blast
    next
      assume "(k', JObj inner) \<in> set rest"
      then have "scannedPath rest p" using nested(2) by (rule scannedPath.nested)
      then show ?thesis by blast
    qed
  qed
next
  assume r: ?R
  then consider (a) "headPath k v p"
    | (b) inner where "v = JObj inner" "scannedPath inner p"
    | (c) "scannedPath rest p"
    by blast
  then show ?L
  proof cases
    case a
    then have "(k, JStr p) \<in> set ((k, v) # rest)" "k \<in> set pathKeys" "looksLikePath p"
      by (simp_all add: headPath_def)
    then show ?thesis by (rule scannedPath.direct)
  next
    case b
    then have "(k, JObj inner) \<in> set ((k, v) # rest)" by simp
    then show ?thesis using b(2) by (rule scannedPath.nested)
  next
    case c
    then show ?thesis by (rule scannedPath_mono) auto
  qed
qed

lemma set_addIfPath: "set (addIfPath k v files) = set files \<union> {p. headPath k v p}"
proof (cases v)
  case (JStr q)
  show ?thesis
  proof (cases "k \<in> set pathKeys \<and> looksLikePath q")
    case True
    then have "{p. headPath k v p} = {q}" using JStr by (auto simp: headPath_def)
    then show ?thesis using True JStr by (simp add: set_setAdd)
  next
    case False
    then have "{p. headPath k v p} = {}" using JStr by (auto simp: headPath_def)
    then show ?thesis using False JStr by auto
  qed
qed (simp_all add: headPath_def)


lemma extractFilePaths_set:
  "set (extractFilePaths kvs files) = set files \<union> {p. scannedPath kvs p}"
proof (induction kvs files rule: extractFilePaths.induct)
  case (1 files)
  show ?case by (simp add: scannedPath_Nil)
next
  case (2 key v rest files)
  show ?case
  proof (cases v)
    case (JObj inner)
    then have cons: "\<And>p. scannedPath ((key, v) # rest) p \<longleftrightarrow>
        headPath key v p \<or> scannedPath inner p \<or> scannedPath rest p"
      by (simp add: scannedPath_Cons)
    have a: "set (extractFilePaths inner (addIfPath key v files)) =
        set (addIfPath key v files) \<union> {p. scannedPath inner p}"
      using 2(1)[OF JObj] .
    have "set (extractFilePaths ((key, v) # rest) files) =
        set (extractFilePaths inner (addIfPath key v files)) \<union> {p. scannedPath rest p}"
      using 2(2) JObj by simp
    then show ?thesis
      by (auto simp: cons a set_addIfPath)
  next
    case JNull
    then have cons: "\<And>p. scannedPath ((key, v) # rest) p \<longleftrightarrow>
        headPath key v p \<or> scannedPath rest p"
      by (simp add: scannedPath_Cons)
    have "set (extractFilePaths ((key, v) # rest) files) =
        set (addIfPath key v files) \<union> {p. scannedPath rest p}"
      using 2(2) JNull by simp
    then show ?thesis
      by (auto simp: cons set_addIfPath)
  next
    case (JBool b)
    then have cons: "\<And>p. scannedPath ((key, v) # rest) p \<longleftrightarrow>
        headPath key v p \<or> scannedPath rest p"
      by (simp add: scannedPath_Cons)
    have "set (extractFilePaths ((key, v) # rest) files) =
        set (addIfPath key v files) \<union> {p. scannedPath rest p}"
      using 2(2) JBool by simp
    then show ?thesis
      by (auto simp: cons set_addIfPath)
  next
    case (JNum n)
    then have cons: "\<And>p. scannedPath ((key, v) # rest) p \<longleftrightarrow>
        headPath key v p \<or> scannedPath rest p"
      by (simp add: scannedPath_Cons)
    have "set (extractFilePaths ((key, v) # rest) files) =
        set (addIfPath key v files) \<union> {p. scannedPath rest p}"
      using 2(2) JNum by simp
    then show ?thesis
      by (auto simp: cons set_addIfPath)
  next
    case (JStr q)
    then have cons: "\<And>p. scannedPath ((key, v) # rest) p \<longleftrightarrow>
        headPath key v p \<or> scannedPath rest p"
      by (simp add: scannedPath_Cons)
    have "set (extractFilePaths ((key, v) # rest) files) =
        set (addIfPath key v files) \<union> {p. scannedPath rest p}"
      using 2(2) JStr by simp
    then show ?thesis
      by (auto simp: cons set_addIfPath)
  next
    case (JArr xs)
    then have cons: "\<And>p. scannedPath ((key, v) # rest) p \<longleftrightarrow>
        headPath key v p \<or> scannedPath rest p"
      by (simp add: scannedPath_Cons)
    have "set (extractFilePaths ((key, v) # rest) files) =
        set (addIfPath key v files) \<union> {p. scannedPath rest p}"
      using 2(2) JArr by simp
    then show ?thesis
      by (auto simp: cons set_addIfPath)
  qed
qed

subsection \<open>Search\<close>

lemma parse_email_file:
  "parseSessionFile exampleRuntime ''/sessions/email.jsonl'' = Inr (Some emailSession)"
  by code_simp

lemma sinceBound_tools: "sinceBound now (opts\<lparr>tools := x\<rparr>) = sinceBound now opts"
  by (auto simp: sinceBound_def split: option.split)

lemma processSessionFiles_Cons:
  assumes "processSessionFiles rt clk (p # ps) opts = Inr rs"
  shows "\<exists>others. processSessionFiles rt (\<lambda>i. clk (Suc i)) ps opts = Inr others \<and>
           (rs = others \<or>
            (\<exists>s rel. parseSessionFile rt p = Inr (Some s) \<and>
               rs = \<lparr>session = s, relevance = Some rel, matchedOn = None,
                      transcriptPath = p\<rparr> # others))"
proof (cases "parseSessionFile rt p")
  case (Inl e)
  with assms show ?thesis by simp
next
  case (Inr parsed)
  note pr = Inr
  show ?thesis
  proof (cases "processSessionFiles rt (\<lambda>i. clk (Suc i)) ps opts")
    case (Inl e)
    with assms pr show ?thesis by simp
  next
    case (Inr others)
    show ?thesis
    proof (cases parsed)
      case None
      with assms pr Inr show ?thesis by simp
    next
      case (Some s)
      with assms pr Inr show ?thesis
        by (auto simp: Let_def split: if_splits)
    qed
  qed
qed

lemma processSessionFiles_matchedOn:
  "processSessionFiles rt clk ps opts = Inr rs \<Longrightarrow> r \<in> set rs \<Longrightarrow> matchedOn r = None"
proof (induction ps arbitrary: clk rs)
  case Nil
  then show ?case by simp
next
  case (Cons p ps)
  from processSessionFiles_Cons[OF Cons.prems(1)] obtain others where
    o: "processSessionFiles rt (\<lambda>i. clk (Suc i)) ps opts = Inr others" and
    rs: "rs = others \<or> (\<exists>s rel. parseSessionFile rt p = Inr (Some s) \<and>
           rs = \<lparr>session = s, relevance = Some rel, matchedOn = None,
                  transcriptPath = p\<rparr> # others)"
    by blast
  from rs show ?case
  proof
    assume "rs = others"
    with Cons.IH[OF o] Cons.prems(2) show ?thesis by simp
  next
    assume "\<exists>s rel. parseSessionFile rt p = Inr (Some s) \<and>
           rs = \<lparr>session = s, relevance = Some rel, matchedOn = None,
                  transcriptPath = p\<rparr> # others"
    then obtain s rel where "rs = \<lparr>session = s, relevance = Some rel, matchedOn = None,
                          transcriptPath = p\<rparr> # others" by blast
    with Cons.IH[OF o] Cons.prems(2) show ?thesis by auto
  qed
qed

lemma email_terms: "queryTerms ''email'' = [''email'']"
  by code_simp

lemma email_in_message:
  "stringIncludes (toLowerCase ''Let's build an email filtering system'') ''email''"
  by code_simp

lemma email_not_in_edit: "\<not> stringIncludes (toLowerCase ''Edit'') ''email''"
  by code_simp

lemma email_in_path: "stringIncludes (toLowerCase ''src/api/email.ts'') ''email''"
  by code_simp

lemma email_scoreLocals:
  assumes "userMessages s = [''Let's build an email filtering system'']"
    and "toolsUsed s = [''Edit'']" and "filesFromToolCalls s = [''src/api/email.ts'']"
  shows "scoreLocals s ''email'' = (13, [''userMessages'', ''filesFromToolCalls''])"
  unfolding scoreLocals_def assms email_terms
  by (simp add: email_in_message email_not_in_edit email_in_path)

lemma example_search0:
  "searchSessions exampleRuntime exampleClock [''/sessions''] (noOptions\<lparr>limit := Some 0\<rparr>) =
     Inr [asResult emailSession ''/sessions/email.jsonl'', asResult piSession ''/sessions/pi.jsonl'',
          asResult lateSession ''/sessions/late.jsonl'']"
  by code_simp

lemma compare_le:
  assumes "validResult x" "validResult y"
  shows "((case compareResults x y of None \<Rightarrow> 0 | Some n \<Rightarrow> n) \<le> 0) = (rankKey x \<le> rankKey y)"
proof -
  from assms obtain rx ry tx ty where
    "relevance x = Some rx" "relevance y = Some ry"
    "endedAt (session x) = Time tx" "endedAt (session y) = Time ty"
    unfolding validResult_def by (metis Date.exhaust option.exhaust)
  then show ?thesis
    by (auto simp: compareResults_def rankKey_def relevanceOrZero_def getTime_def)
qed

lemma insertSorted_insort_key:
  assumes "validResult x" "\<forall>y \<in> set ys. validResult y"
  shows "insertSorted compareResults x ys = insort_key rankKey x ys"
  using assms(2)
proof (induction ys)
  case Nil
  show ?case by simp
next
  case (Cons y ys)
  then have "validResult y" by simp
  with assms(1) have "((case compareResults x y of None \<Rightarrow> 0 | Some n \<Rightarrow> n) \<le> 0) = (rankKey x \<le> rankKey y)"
    by (rule compare_le)
  with Cons show ?case by simp
qed

lemma arraySort_sort_key:
  assumes "\<forall>y \<in> set xs. validResult y"
  shows "arraySort compareResults xs = sort_key rankKey xs"
  using assms
proof (induction xs)
  case Nil
  show ?case by (simp add: arraySort_def)
next
  case (Cons x xs)
  then have ih: "arraySort compareResults xs = sort_key rankKey xs" by simp
  have "\<forall>y \<in> set (sort_key rankKey xs). validResult y"
    using Cons.prems by simp
  with Cons.prems have "insertSorted compareResults x (sort_key rankKey xs) =
      insort_key rankKey x (sort_key rankKey xs)"
    by (intro insertSorted_insort_key) simp_all
  with ih show ?case
    by (simp add: arraySort_def sort_key_def)
qed


lemma foldE_invariant:
  assumes "foldE f xs s = Inr s'" and "I s"
    and "\<And>x a b. I a \<Longrightarrow> f x a = Inr b \<Longrightarrow> I b"
  shows "I s'"
  using assms(1,2)
proof (induction xs arbitrary: s)
  case Nil
  then show ?case by simp
next
  case (Cons x xs)
  from Cons.prems(1) obtain a where a: "f x s = Inr a" and r: "foldE f xs a = Inr s'"
    by (cases "f x s") simp_all
  from assms(3)[OF Cons.prems(2) a] have "I a" .
  with Cons.IH[OF r] show ?case .
qed

lemma processSessionFiles_relevance:
  "processSessionFiles rt clk ps opts = Inr rs \<Longrightarrow> r \<in> set rs \<Longrightarrow> relevance r \<noteq> None"
proof (induction ps arbitrary: clk rs)
  case Nil
  then show ?case by simp
next
  case (Cons p ps)
  from processSessionFiles_Cons[OF Cons.prems(1)] obtain others where
    o: "processSessionFiles rt (\<lambda>i. clk (Suc i)) ps opts = Inr others" and
    rs: "rs = others \<or> (\<exists>s rel. parseSessionFile rt p = Inr (Some s) \<and>
           rs = \<lparr>session = s, relevance = Some rel, matchedOn = None,
                  transcriptPath = p\<rparr> # others)"
    by blast
  from rs show ?case
  proof
    assume "rs = others"
    with Cons.IH[OF o] Cons.prems(2) show ?thesis by simp
  next
    assume "\<exists>s rel. parseSessionFile rt p = Inr (Some s) \<and>
           rs = \<lparr>session = s, relevance = Some rel, matchedOn = None,
                  transcriptPath = p\<rparr> # others"
    then obtain s rel where "rs = \<lparr>session = s, relevance = Some rel, matchedOn = None,
                          transcriptPath = p\<rparr> # others" by blast
    with Cons.IH[OF o] Cons.prems(2) show ?thesis by auto
  qed
qed

lemma pushFiles_scored:
  assumes "scored st" and "pushFiles rt clock opts files st = Inr st'"
  shows "scored st'"
proof -
  from assms(2) obtain found where
    f: "processSessionFiles rt (\<lambda>i. clock (fst st + i)) files opts = Inr found" and
    st': "st' = (fst st + length files, snd st @ found)"
    unfolding pushFiles_def by (auto simp: bindE_Inr_iff)
  from processSessionFiles_relevance[OF f] assms(1) show ?thesis
    unfolding scored_def st' by auto
qed

lemma searchDirs_scored:
  assumes "scored st" and "searchDirs rt clock opts ds st = Inr st'"
  shows "scored st'"
  using assms(2) assms(1) unfolding searchDirs_def
  by (rule foldE_invariant) (rule pushFiles_scored)

lemma searchBase_scored:
  assumes "scored st" and "searchBase rt clock opts baseDir st = Inr st'"
  shows "scored st'"
proof -
  consider (a) "searchDirs rt clock opts (findSessionDirs rt baseDir) st = Inr st'"
    | (b) "pushFiles rt clock opts (findSessionFiles rt baseDir opts) st = Inr st'"
    | (c) mid where "searchDirs rt clock opts (findSessionDirs rt baseDir) st = Inr mid"
        "pushFiles rt clock opts (findSessionFiles rt baseDir opts) mid = Inr st'"
    using assms(2) unfolding searchBase_def
    by (auto simp: bindE_Inr_iff split: if_splits)
  then show ?thesis
  proof cases
    case a
    with assms(1) show ?thesis by (rule searchDirs_scored)
  next
    case b
    with assms(1) show ?thesis by (rule pushFiles_scored)
  next
    case c
    from assms(1) c(1) have "scored mid" by (rule searchDirs_scored)
    then show ?thesis using c(2) by (rule pushFiles_scored)
  qed
qed

lemma collectResults_relevance:
  assumes "collectResults rt clock dirs opts = Inr results" and "r \<in> set results"
  shows "relevance r \<noteq> None"
proof -
  from assms(1) obtain st where
    f: "foldE (searchBase rt clock opts) dirs (0, []) = Inr st" and r: "results = snd st"
    unfolding collectResults_def by (auto simp: bindE_Inr_iff)
  have "scored (0, [])" by (simp add: scored_def)
  with f have "scored st"
    by (rule foldE_invariant) (rule searchBase_scored)
  with r assms(2) show ?thesis by (simp add: scored_def)
qed

lemma rankKey_le_rankedBefore:
  assumes "validResult a" "validResult b" "rankKey a \<le> rankKey b"
  shows "rankedBefore a b"
proof -
  from assms(1,2) obtain ta tb where
    "endedAt (session a) = Time ta" "endedAt (session b) = Time tb"
    unfolding validResult_def by (metis Date.exhaust)
  with assms(3) show ?thesis
    by (auto simp: rankKey_def rankedBefore_def dateLessEq_def)
qed

lemma sameRank_rankKey:
  assumes "validResult r" "validResult x"
  shows "sameRank r x = (rankKey x = rankKey r)"
proof -
  from assms obtain rr rx tr tx where
    "relevance r = Some rr" "relevance x = Some rx"
    "endedAt (session r) = Time tr" "endedAt (session x) = Time tx"
    unfolding validResult_def by (metis Date.exhaust option.exhaust)
  then show ?thesis
    by (auto simp: sameRank_def rankKey_def relevanceOrZero_def)
qed

lemma sameRank_invalid:
  assumes "\<not> validResult r" "validResult x"
  shows "\<not> sameRank r x"
  using assms by (auto simp: sameRank_def validResult_def)

lemma filter_sameRank:
  assumes "\<forall>x \<in> set xs. validResult x"
  shows "filter (sameRank r) xs =
           (if validResult r then filter (\<lambda>x. rankKey x = rankKey r) xs else [])"
proof (cases "validResult r")
  case True
  then have "filter (sameRank r) xs = filter (\<lambda>x. rankKey x = rankKey r) xs"
    using assms by (intro filter_cong) (simp_all add: sameRank_rankKey)
  with True show ?thesis by simp
next
  case False
  then have "filter (sameRank r) xs = []"
    using assms by (auto simp: filter_empty_conv sameRank_invalid)
  with False show ?thesis by simp
qed

lemma arraySort_ranked:
  assumes v: "\<forall>x \<in> set xs. validResult x"
  shows "mset (arraySort compareResults xs) = mset xs"
    and "sorted_wrt rankedBefore (arraySort compareResults xs)"
    and "filter (sameRank r) (arraySort compareResults xs) = filter (sameRank r) xs"
proof -
  note eq = arraySort_sort_key[OF v]
  show "mset (arraySort compareResults xs) = mset xs"
    by (simp add: eq)
  have v': "\<forall>x \<in> set (sort_key rankKey xs). validResult x"
    using v by simp
  have "sorted (map rankKey (sort_key rankKey xs))"
    by (rule sorted_sort_key)
  then have "sorted_wrt (\<lambda>a b. rankKey a \<le> rankKey b) (sort_key rankKey xs)"
    by (simp add: sorted_map)
  moreover have "\<And>a b. a \<in> set (sort_key rankKey xs) \<Longrightarrow> b \<in> set (sort_key rankKey xs) \<Longrightarrow>
      rankKey a \<le> rankKey b \<Longrightarrow> rankedBefore a b"
    using v' by (auto intro: rankKey_le_rankedBefore)
  ultimately have "sorted_wrt rankedBefore (sort_key rankKey xs)"
    by (rule sorted_wrt_mono_rel[rotated])
  then show "sorted_wrt rankedBefore (arraySort compareResults xs)"
    by (simp add: eq)
  show "filter (sameRank r) (arraySort compareResults xs) = filter (sameRank r) xs"
    unfolding eq filter_sameRank[OF v] filter_sameRank[OF v']
    by (simp add: sort_key_stable)
qed

subsection \<open>The normalizers\<close>

lemma claudeMessages_eq:
  "claudeMessages rt lines = filter isClaudeTurn (List.map_filter (JSON_parse rt) lines)"
proof (induction lines)
  case Nil
  show ?case by simp
next
  case (Cons l ls)
  show ?case
  proof (cases "JSON_parse rt l")
    case None
    with Cons show ?thesis by simp
  next
    case (Some v)
    show ?thesis
    proof (cases "v = JNull")
      case True
      with Some Cons show ?thesis
        by (simp add: getProp_def isClaudeTurn_def)
    next
      case False
      with Some Cons show ?thesis
        by (simp add: getProp_def isClaudeTurn_def)
    qed
  qed
qed

lemma piAllMessages_eq: "piAllMessages rt lines = List.map_filter (JSON_parse rt) lines"
  by (induction lines) (simp_all split: option.split)

lemma map_filter_valid:
  "List.map_filter f (filter (\<lambda>l. f l \<noteq> None) ls) = List.map_filter f ls"
  by (induction ls) (auto split: option.split)

lemma findSession_total:
  assumes "JNull \<notin> set ms"
  shows "\<exists>found. findSession ms = Inr found"
  using assms
proof (induction ms)
  case Nil
  show ?case by simp
next
  case (Cons m ms)
  then have "m \<noteq> JNull" by auto
  with Cons show ?case by (auto simp: getProp_def)
qed

lemma isPiConversation_value:
  "isPiConversation m = (if m = JNull then Inl TypeError else Inr (isPiTurn m))"
  by (auto simp: isPiConversation_def getProp_def isPiTurn_def piRole_def split: option.split)

lemma filterE_isPiConversation:
  "filterE isPiConversation ms =
     (if JNull \<in> set ms then Inl TypeError else Inr (filter isPiTurn ms))"
  by (induction ms) (auto simp: isPiConversation_value)


lemma parseClaude_via_messages:
  "claudeMessages rt lines = claudeMessages rt lines' \<Longrightarrow>
   parseClaudeSessionContent rt lines sid = parseClaudeSessionContent rt lines' sid"
  by (simp add: parseClaudeSessionContent_def)

lemma parsePi_via_messages:
  "piAllMessages rt lines = piAllMessages rt lines' \<Longrightarrow>
   parsePiSessionContent rt lines sid = parsePiSessionContent rt lines' sid"
  by (simp add: parsePiSessionContent_def)

lemma parsePi_no_turn:
  assumes "JNull \<notin> set (piAllMessages rt lines)"
    and "filter isPiTurn (piAllMessages rt lines) = []"
  shows "parsePiSessionContent rt lines sid = Inr None"
proof -
  from findSession_total[OF assms(1)] obtain found where
    f: "findSession (piAllMessages rt lines) = Inr found" by blast
  have c: "filterE isPiConversation (piAllMessages rt lines) = Inr []"
    using assms by (simp add: filterE_isPiConversation)
  show ?thesis
    unfolding parsePiSessionContent_def Let_def f c
    by (simp split: option.split)
qed

lemma blank_lines:
  "contentLines (joinLines [piSessionLine, piModelChangeLine, summaryLine, brokenLine]) =
     [piSessionLine, piModelChangeLine, summaryLine, brokenLine]"
  by code_simp

lemma blank_parsed:
  "List.map_filter (JSON_parse exampleRuntime) [piSessionLine, piModelChangeLine, summaryLine, brokenLine] =
     [piSessionRecord, piModelChangeRecord, summaryRecord]"
  by code_simp

lemma interleaved_lines:
  "contentLines (joinLines [userLine, brokenLine, editLine, brokenLine]) =
     [userLine, brokenLine, editLine, brokenLine]"
  by code_simp

lemma interleaved_valid:
  "contentLines (joinLines [userLine, editLine]) =
     filter (\<lambda>l. JSON_parse exampleRuntime l \<noteq> None)
       (contentLines (joinLines [userLine, brokenLine, editLine, brokenLine]))"
  by code_simp

lemma parse_user_line: "JSON_parse exampleRuntime userLine = Some userRecord"
  by code_simp

lemma parse_email_transcript:
  "parseSessionContent exampleRuntime (joinLines [userLine, editLine]) None = Inr (Some emailSession)"
  by code_simp

lemma parseClaude_Some:
  assumes "parseClaudeSessionContent rt lines sid = Inr (Some s)"
  shows "\<exists>acc. claudeMessages rt lines \<noteq> [] \<and>
           foldE claudeStep (claudeMessages rt lines) initialAccum = Inr acc \<and>
           startedAt s = Date_new rt (field (hd (claudeMessages rt lines)) ''timestamp'') \<and>
           endedAt s = Date_new rt (field (last (claudeMessages rt lines)) ''timestamp'') \<and>
           messageCount s = length (claudeMessages rt lines) \<and>
           inputTokens s = inputTokens' acc \<and> outputTokens s = outputTokens' acc \<and>
           cacheCreationTokens s = cacheCreationTokens' acc \<and>
           cacheReadTokens s = cacheReadTokens' acc \<and>
           userMessages s = userMessages' acc \<and> modelTokens s = modelTokens' acc"
proof -
  have ne: "claudeMessages rt lines \<noteq> []"
    using assms by (auto simp: parseClaudeSessionContent_def Let_def)
  with assms show ?thesis
    by (auto simp: parseClaudeSessionContent_def Let_def bindE_Inr_iff)
qed

lemma parsePi_Some:
  assumes "parsePiSessionContent rt lines sid = Inr (Some s)"
  shows "\<exists>conv changes acc0 acc1 results acc.
           filterE isPiConversation (piAllMessages rt lines) = Inr conv \<and> conv \<noteq> [] \<and>
           filterE isModelChange (piAllMessages rt lines) = Inr changes \<and>
           foldE piModelChange changes initialAccum = Inr acc0 \<and>
           foldE piStep conv acc0 = Inr acc1 \<and>
           filterE isToolResult (piAllMessages rt lines) = Inr results \<and>
           foldE piToolResult results acc1 = Inr acc \<and>
           startedAt s = Date_new rt (field (hd conv) ''timestamp'') \<and>
           endedAt s = Date_new rt (field (last conv) ''timestamp'') \<and>
           messageCount s = length conv \<and>
           inputTokens s = inputTokens' acc \<and> outputTokens s = outputTokens' acc \<and>
           cacheCreationTokens s = cacheCreationTokens' acc \<and>
           cacheReadTokens s = cacheReadTokens' acc \<and>
           userMessages s = userMessages' acc \<and> modelTokens s = modelTokens' acc"
proof -
  let ?all = "piAllMessages rt lines"
  have ne: "?all \<noteq> []"
    using assms by (auto simp: parsePiSessionContent_def Let_def)
  obtain found where f: "findSession ?all = Inr found"
    using assms ne by (cases "findSession ?all") (simp_all add: parsePiSessionContent_def Let_def)
  obtain conv where c: "filterE isPiConversation ?all = Inr conv"
    using assms ne f
    by (cases "filterE isPiConversation ?all") (simp_all add: parsePiSessionContent_def Let_def)
  obtain sm where sm: "found = Some sm"
    using assms ne f c by (cases found) (simp_all add: parsePiSessionContent_def Let_def)
  have cne: "conv \<noteq> []"
    using assms ne f c sm by (auto simp: parsePiSessionContent_def Let_def)
  show ?thesis
    using assms ne cne
    unfolding parsePiSessionContent_def Let_def f c sm
    by (auto simp: bindE_Inr_iff)
qed


lemma parseSessionContent_Some:
  assumes "parseSessionContent rt content sid = Inr (Some s)"
  shows "(transcriptFormat rt content = Claude \<and>
            parseClaudeSessionContent rt (contentLines content) sid = Inr (Some s)) \<or>
         (transcriptFormat rt content = Pi \<and>
            parsePiSessionContent rt (contentLines content) sid = Inr (Some s))"
proof (cases "contentLines content")
  case Nil
  with assms show ?thesis by (simp add: parseSessionContent_def)
next
  case (Cons l ls)
  with assms show ?thesis
    by (cases "detectSessionFormat rt l")
       (simp_all add: parseSessionContent_def transcriptFormat_def)
qed

lemma summary_first_turns:
  "conversationalTurns exampleRuntime (joinLines [userLine, summaryLine, editLine, summaryLine]) =
     [userRecord, editRecord]"
  by code_simp

lemma summary_first_parse:
  "parseSessionContent exampleRuntime (joinLines [userLine, summaryLine, editLine, summaryLine]) None =
     Inr (Some emailSession)"
  by code_simp







lemma balanced_tools [simp]:
  "balanced (acc\<lparr>toolsUsed' := a, filesFromToolCalls' := b\<rparr>) = balanced acc"
  "balanced (acc\<lparr>toolsUsed' := a\<rparr>) = balanced acc"
  "balanced (acc\<lparr>modelsUsed' := c\<rparr>) = balanced acc"
  "balanced (acc\<lparr>userMessages' := d\<rparr>) = balanced acc"
  by (simp_all add: balanced_def)



lemma claudeUser_result:
  assumes "claudeUser msg acc = Inr acc'"
  shows "acc' = acc \<or> (\<exists>c. trim c \<noteq> [] \<and> acc' = acc\<lparr>userMessages' := userMessages' acc @ [c]\<rparr>)"
proof (cases "getProp (field msg ''message'') ''content''")
  case (Inl e)
  with assms show ?thesis by (simp add: claudeUser_def)
next
  case (Inr content)
  show ?thesis
  proof (cases content)
    case None
    with assms Inr show ?thesis by (simp add: claudeUser_def)
  next
    case (Some v)
    with assms Inr show ?thesis
      by (cases v) (auto simp: claudeUser_def split: if_splits)
  qed
qed








lemma piUser_result:
  assumes "piUser msg acc = Inr acc'"
  shows "acc' = acc \<or>
         (\<exists>blocks msgs. foldE piUserBlock blocks (userMessages' acc) = Inr msgs \<and>
            acc' = acc\<lparr>userMessages' := msgs\<rparr>)"
proof (cases "getProp (piMessage msg) ''content''")
  case (Inl e)
  with assms show ?thesis by (simp add: piUser_def)
next
  case (Inr content)
  show ?thesis
  proof (cases content)
    case None
    with assms Inr show ?thesis by (simp add: piUser_def)
  next
    case (Some v)
    show ?thesis
    proof (cases v)
      case (JArr blocks)
      with assms Inr Some show ?thesis
        by (cases "foldE piUserBlock blocks (userMessages' acc)") (auto simp: piUser_def)
    qed (insert assms Inr Some, auto simp: piUser_def)
  qed
qed









lemma accumulateUsage_userMessages:
  assumes "accumulateUsage rd usage model (trackModel model acc) = Inr acc'"
  shows "userMessages' acc' = userMessages' acc"
proof -
  have t: "userMessages' (trackModel model acc) = userMessages' acc"
    by (cases model) (simp_all add: trackModel_def)
  show ?thesis
  proof (cases usage)
    case None
    with assms t show ?thesis by (simp add: accumulateUsage_def)
  next
    case (Some u)
    show ?thesis
    proof (cases "truthyVal u")
      case False
      with assms t Some show ?thesis by (simp add: accumulateUsage_def)
    next
      case True
      with assms t Some show ?thesis
        by (cases "rd u") (auto simp: accumulateUsage_def addUsage_def)
    qed
  qed
qed

lemma blocks_userMessages:
  assumes "(case content of
         Some (JArr blocks) \<Rightarrow>
           bindE (foldE ex blocks (toolsUsed' acc1, filesFromToolCalls' acc1)) (\<lambda>tf.
             Inr (acc1\<lparr>toolsUsed' := fst tf, filesFromToolCalls' := snd tf\<rparr>))
       | _ \<Rightarrow> Inr acc1) = Inr acc'"
  shows "userMessages' acc' = userMessages' acc1"
proof (cases content)
  case None
  with assms show ?thesis by simp
next
  case (Some v)
  show ?thesis
  proof (cases v)
    case (JArr blocks)
    with Some assms show ?thesis
      by (cases "foldE ex blocks (toolsUsed' acc1, filesFromToolCalls' acc1)") auto
  qed (insert Some assms, auto)
qed

lemma claudeAssistant_userMessages:
  assumes "claudeAssistant msg acc = Inr acc'"
  shows "userMessages' acc' = userMessages' acc"
proof -
  from assms obtain message where msg: "field msg ''message'' = Some message" "message \<noteq> JNull"
    by (cases "field msg ''message''")
       (auto simp: claudeAssistant_def getProp_def split: if_splits)
  have g: "\<And>k. getProp (field msg ''message'') k = Inr (field message k)"
    using msg by (simp add: getProp_def)
  obtain model where t: "truthyString (field message ''model'') = Inr model"
    using assms unfolding claudeAssistant_def g bindE_Inr
    by (cases "truthyString (field message ''model'')") simp_all
  obtain acc1 where
    a: "accumulateUsage claudeUsage (field message ''usage'') model (trackModel model acc) = Inr acc1"
    using assms unfolding claudeAssistant_def g t bindE_Inr
    by (cases "accumulateUsage claudeUsage (field message ''usage'') model (trackModel model acc)")
       simp_all
  from assms have "userMessages' acc' = userMessages' acc1"
    unfolding claudeAssistant_def g t a bindE_Inr by (rule blocks_userMessages)
  with accumulateUsage_userMessages[OF a] show ?thesis by simp
qed

lemma claudeStep_nonBlank:
  assumes "claudeStep msg acc = Inr acc'" and "nonBlank acc"
  shows "nonBlank acc'"
proof (cases "field msg ''type'' = Some (JStr ''user'')")
  case True
  with assms(1) have "claudeUser msg acc = Inr acc'"
    by (simp add: claudeStep_def)
  from claudeUser_result[OF this] assms(2) show ?thesis
    by (auto simp: nonBlank_def)
next
  case False
  show ?thesis
  proof (cases "field msg ''type'' = Some (JStr ''assistant'')")
    case True
    with False assms(1) have "claudeAssistant msg acc = Inr acc'"
      by (simp add: claudeStep_def)
    from claudeAssistant_userMessages[OF this] assms(2) show ?thesis
      by (simp add: nonBlank_def)
  next
    case n: False
    with False assms show ?thesis by (simp add: claudeStep_def)
  qed
qed

lemma truthyString_nonempty: "truthyString v = Inr (Some t) \<Longrightarrow> t \<noteq> []"
  by (cases v rule: truthyString.cases) (auto split: if_splits)

lemma piUserBlock_result:
  assumes "piUserBlock block msgs = Inr msgs'"
  shows "msgs' = msgs \<or> (\<exists>t. t \<noteq> [] \<and> msgs' = msgs @ [t])"
proof (cases "getProp (Some block) ''type''")
  case (Inl e)
  with assms show ?thesis by (simp add: piUserBlock_def)
next
  case (Inr ty)
  note ty = Inr
  show ?thesis
  proof (cases "ty = Some (JStr ''text'')")
    case False
    with assms ty show ?thesis by (simp add: piUserBlock_def)
  next
    case True
    note tx = True
    show ?thesis
    proof (cases "truthyString (field block ''text'')")
      case (Inl e)
      with assms ty tx show ?thesis by (simp add: piUserBlock_def)
    next
      case (Inr str)
      note r = Inr
      show ?thesis
      proof (cases str)
        case None
        with assms ty tx r show ?thesis by (simp add: piUserBlock_def)
      next
        case (Some t)
        with r have "t \<noteq> []" by (simp add: truthyString_nonempty)
        with assms ty tx r Some show ?thesis by (auto simp: piUserBlock_def)
      qed
    qed
  qed
qed

lemma piUserBlock_nonEmpty:
  assumes "piUserBlock block msgs = Inr msgs'" and "list_all (\<lambda>m. m \<noteq> []) msgs"
  shows "list_all (\<lambda>m. m \<noteq> []) msgs'"
  using piUserBlock_result[OF assms(1)] assms(2) by auto

lemma piAssistant_userMessages:
  assumes "piAssistant msg acc = Inr acc'"
  shows "userMessages' acc' = userMessages' acc"
proof -
  from assms obtain message where msg: "piMessage msg = Some message" "message \<noteq> JNull"
    by (cases "piMessage msg") (auto simp: piAssistant_def getProp_def split: if_splits)
  have g: "\<And>k. getProp (piMessage msg) k = Inr (field message k)"
    using msg by (simp add: getProp_def)
  obtain model where
    t: "truthyString (orElse (field msg ''model'') (field message ''model'')) = Inr model"
    using assms unfolding piAssistant_def g bindE_Inr
    by (cases "truthyString (orElse (field msg ''model'') (field message ''model''))") simp_all
  obtain acc1 where
    a: "accumulateUsage piUsage (orElse (field msg ''usage'') (field message ''usage'')) model
          (trackModel model acc) = Inr acc1"
    using assms unfolding piAssistant_def g t bindE_Inr
    by (cases "accumulateUsage piUsage (orElse (field msg ''usage'') (field message ''usage''))
          model (trackModel model acc)") simp_all
  from assms have "userMessages' acc' = userMessages' acc1"
    unfolding piAssistant_def g t a bindE_Inr by (rule blocks_userMessages)
  with accumulateUsage_userMessages[OF a] show ?thesis by simp
qed

lemma piUser_nonEmpty:
  assumes "piUser msg acc = Inr acc'" and "nonEmpty acc"
  shows "nonEmpty acc'"
  using piUser_result[OF assms(1)]
proof
  assume "acc' = acc"
  with assms(2) show ?thesis by simp
next
  assume "\<exists>blocks msgs. foldE piUserBlock blocks (userMessages' acc) = Inr msgs \<and>
        acc' = acc\<lparr>userMessages' := msgs\<rparr>"
  then obtain blocks msgs where
    f: "foldE piUserBlock blocks (userMessages' acc) = Inr msgs" and
    e: "acc' = acc\<lparr>userMessages' := msgs\<rparr>" by blast
  from assms(2) have "list_all (\<lambda>m. m \<noteq> []) (userMessages' acc)"
    by (simp add: nonEmpty_def)
  with f have "list_all (\<lambda>m. m \<noteq> []) msgs"
    by (rule foldE_invariant) (rule piUserBlock_nonEmpty)
  with e show ?thesis by (simp add: nonEmpty_def)
qed

lemma piStep_nonEmpty:
  assumes "piStep msg acc = Inr acc'" and "nonEmpty acc"
  shows "nonEmpty acc'"
proof (cases "piRole msg = Some (JStr ''user'')")
  case True
  with assms(1) have "piUser msg acc = Inr acc'"
    by (simp add: piStep_def)
  then show ?thesis using assms(2) by (rule piUser_nonEmpty)
next
  case False
  show ?thesis
  proof (cases "piRole msg = Some (JStr ''assistant'')")
    case True
    with False assms(1) have "piAssistant msg acc = Inr acc'"
      by (simp add: piStep_def)
    from piAssistant_userMessages[OF this] assms(2) show ?thesis
      by (simp add: nonEmpty_def)
  next
    case n: False
    with False assms show ?thesis by (simp add: piStep_def)
  qed
qed

lemma piModelChange_nonEmpty:
  assumes "piModelChange change acc = Inr acc'" and "nonEmpty acc"
  shows "nonEmpty acc'"
proof (cases "truthyString (field change ''modelId'')")
  case (Inl e)
  with assms show ?thesis by (simp add: piModelChange_def)
next
  case (Inr modelId)
  with assms show ?thesis by (cases modelId) (auto simp: piModelChange_def nonEmpty_def)
qed

lemma piToolResult_nonEmpty:
  assumes "piToolResult result acc = Inr acc'" and "nonEmpty acc"
  shows "nonEmpty acc'"
proof (cases "truthyString (field result ''toolName'')")
  case (Inl e)
  with assms show ?thesis by (simp add: piToolResult_def)
next
  case (Inr toolName)
  with assms show ?thesis by (cases toolName) (auto simp: piToolResult_def nonEmpty_def)
qed


lemma parse_blank_pi:
  "parseSessionContent exampleRuntime (joinLines [piSessionLine, piBlankLine]) None =
     Inr (Some blankSession)"
  by code_simp

lemma parse_blank_claude:
  "map_sum id (map_option userMessages)
     (parseSessionContent exampleRuntime (joinLines [blankUserLine, editLine]) None) =
   Inr (Some [])"
  by code_simp

lemma trim_spaces: "trim ''   '' = []"
  by code_simp

lemma email_format: "transcriptFormat exampleRuntime (joinLines [userLine, editLine]) = Claude"
  by code_simp

lemma blank_pi_format: "transcriptFormat exampleRuntime (joinLines [piSessionLine, piBlankLine]) = Pi"
  by code_simp

lemma claude_userMessages_nonBlank:
  assumes "parseClaudeSessionContent rt lines sid = Inr (Some s)"
  shows "list_all (\<lambda>m. trim m \<noteq> []) (userMessages s)"
proof -
  from parseClaude_Some[OF assms] obtain acc where
    f: "foldE claudeStep (claudeMessages rt lines) initialAccum = Inr acc" and
    u: "userMessages s = userMessages' acc" by blast
  have "nonBlank initialAccum" by (simp add: nonBlank_def initialAccum_def)
  with f have "nonBlank acc"
    by (rule foldE_invariant) (rule claudeStep_nonBlank)
  with u show ?thesis by (simp add: nonBlank_def)
qed

lemma pi_userMessages_nonEmpty:
  assumes "parsePiSessionContent rt lines sid = Inr (Some s)"
  shows "list_all (\<lambda>m. m \<noteq> []) (userMessages s)"
proof -
  from parsePi_Some[OF assms] obtain conv changes acc0 acc1 results acc where
    f0: "foldE piModelChange changes initialAccum = Inr acc0" and
    f1: "foldE piStep conv acc0 = Inr acc1" and
    f2: "foldE piToolResult results acc1 = Inr acc" and
    u: "userMessages s = userMessages' acc" by blast
  have "nonEmpty initialAccum" by (simp add: nonEmpty_def initialAccum_def)
  with f0 have "nonEmpty acc0"
    by (rule foldE_invariant) (rule piModelChange_nonEmpty)
  with f1 have "nonEmpty acc1"
    by (rule foldE_invariant) (rule piStep_nonEmpty)
  with f2 have "nonEmpty acc"
    by (rule foldE_invariant) (rule piToolResult_nonEmpty)
  with u show ?thesis by (simp add: nonEmpty_def)
qed

section \<open>The claims\<close>

subsection \<open>C7: which argument values reach the file-path set\<close>

text \<open>
  C7, as stated, fails: the scan never enters an array, so a nested object
  inside an array is not re-entered. For \<^verbatim>\<open>{edits: [{file_path: "src/a.ts"}]}\<close>
  the claim's reading finds the path \<^verbatim>\<open>src/a.ts\<close>, the code finds nothing.
\<close>

theorem extractFilePaths_array_counterexample:
  "\<not> set (extractFilePaths editsArgs []) = {p. claimedPath editsArgs p}"
proof
  assume eq: "set (extractFilePaths editsArgs []) = {p. claimedPath editsArgs p}"
  have a: "extractFilePaths editsArgs [] = []"
    by (simp add: editsArgs_def)
  have inner: "claimedPath [(''file_path'', JStr ''src/a.ts'')] ''src/a.ts''"
    by (rule claimedPath.direct[of "''file_path''"]) (simp_all add: pathKeys_def looksLikePath_def)
  have "(''edits'', JArr [JObj [(''file_path'', JStr ''src/a.ts'')]]) \<in> set editsArgs"
    by (simp add: editsArgs_def)
  moreover have "JObj [(''file_path'', JStr ''src/a.ts'')] \<in> set [JObj [(''file_path'', JStr ''src/a.ts'')]]"
    by simp
  ultimately have "claimedPath editsArgs ''src/a.ts''"
    using inner by (rule claimedPath.inArray)
  then have "''src/a.ts'' \<in> set (extractFilePaths editsArgs [])"
    unfolding eq by simp
  then show False
    unfolding a by simp
qed

text \<open>
  C7, amended: for every tool-invocation argument object, the paths added to
  the file-path set are exactly the string values whose key is one of the
  five path parameter names, which contain a slash or a backslash, and which
  are reached through nested plain objects, to any depth; arrays are never
  entered, whatever their elements are.
\<close>

theorem extractFilePaths_scans_plain_objects:
  "set (extractFilePaths (entries (JObj kvs)) files) = set files \<union> {p. scannedPath kvs p}"
  by (simp add: extractFilePaths_set)

theorem extractFilePaths_scans_plain_objects_witness:
  "extractFilePaths (entries (JObj nestedArgs)) [] = [''src/a.ts'', ''lib/b.ts''] \<and>
   {p. scannedPath nestedArgs p} = {''src/a.ts'', ''lib/b.ts''}"
proof -
  have a: "extractFilePaths (entries (JObj nestedArgs)) [] = [''src/a.ts'', ''lib/b.ts'']"
    by (simp add: nestedArgs_def pathKeys_def looksLikePath_def setAdd_def)
  have "set (extractFilePaths (entries (JObj nestedArgs)) []) = set [] \<union> {p. scannedPath nestedArgs p}"
    by (rule extractFilePaths_scans_plain_objects)
  then have "{p. scannedPath nestedArgs p} = {''src/a.ts'', ''lib/b.ts''}"
    unfolding a by simp
  with a show ?thesis by simp
qed

subsection \<open>C8: the tool filter\<close>

text \<open>
  C8: when a non-empty tool list is requested, a session passes the filters
  exactly when it passes them without the tool list and at least one
  requested name is, lower-cased, a substring of at least one lower-cased
  tool name of the session. Whatever the other options are, a session whose
  tools are exactly \<^verbatim>\<open>Edit\<close> fails for the request \<^verbatim>\<open>Bash\<close>, and for the
  request \<^verbatim>\<open>Ed\<close> fares as it does with no tool list.
\<close>

theorem tool_filter_any_match:
  "(tools opts = Some ts \<and> ts \<noteq> [] \<longrightarrow>
      matchesFilters now s opts =
        (matchesFilters now s (opts\<lparr>tools := None\<rparr>) \<and>
         (\<exists>tool \<in> set ts. \<exists>t \<in> set (toolsUsed s).
            stringIncludes (toLowerCase t) (toLowerCase tool)))) \<and>
   (toolsUsed s = [''Edit''] \<longrightarrow> \<not> matchesFilters now s (opts\<lparr>tools := Some [''Bash'']\<rparr>)) \<and>
   (toolsUsed s = [''Edit''] \<longrightarrow>
      matchesFilters now s (opts\<lparr>tools := Some [''Ed'']\<rparr>) =
      matchesFilters now s (opts\<lparr>tools := None\<rparr>))"
proof (intro conjI impI)
  assume a: "tools opts = Some ts \<and> ts \<noteq> []"
  have "matchesFilters now s opts =
        (matchesFilters now s (opts\<lparr>tools := None\<rparr>) \<and> hasMatchingTool s ts)"
    using a unfolding matchesFilters_def sinceBound_tools by auto
  then show "matchesFilters now s opts =
        (matchesFilters now s (opts\<lparr>tools := None\<rparr>) \<and>
         (\<exists>tool \<in> set ts. \<exists>t \<in> set (toolsUsed s).
            stringIncludes (toLowerCase t) (toLowerCase tool)))"
    by (simp add: hasMatchingTool_def list_ex_iff)
next
  assume e: "toolsUsed s = [''Edit'']"
  have "\<not> stringIncludes (toLowerCase ''Edit'') (toLowerCase ''Bash'')"
    by code_simp
  then have "\<not> hasMatchingTool s [''Bash'']"
    by (simp add: hasMatchingTool_def e)
  then show "\<not> matchesFilters now s (opts\<lparr>tools := Some [''Bash'']\<rparr>)"
    unfolding matchesFilters_def sinceBound_tools by simp
next
  assume e: "toolsUsed s = [''Edit'']"
  have "stringIncludes (toLowerCase ''Edit'') (toLowerCase ''Ed'')"
    by code_simp
  then have "hasMatchingTool s [''Ed'']"
    by (simp add: hasMatchingTool_def e)
  then show "matchesFilters now s (opts\<lparr>tools := Some [''Ed'']\<rparr>) =
      matchesFilters now s (opts\<lparr>tools := None\<rparr>)"
    unfolding matchesFilters_def sinceBound_tools by simp
qed

theorem tool_filter_any_match_witness:
  "matchesFilters 0 emailSession (noOptions\<lparr>tools := Some [''Ed'']\<rparr>) \<and>
   \<not> matchesFilters 0 emailSession (noOptions\<lparr>tools := Some [''Bash'']\<rparr>) \<and>
   matchesFilters 0 emailSession (noOptions\<lparr>tools := Some [''Bash'', ''EDIT'']\<rparr>)"
proof -
  have t: "toolsUsed emailSession = [''Edit'']"
    by (simp add: emailSession_def)
  have none: "matchesFilters 0 emailSession (noOptions\<lparr>tools := None\<rparr>)"
    by (simp add: matchesFilters_def sinceBound_def noOptions_def)
  have inc: "stringIncludes (toLowerCase ''Edit'') (toLowerCase ''EDIT'')"
    by code_simp
  note w = tool_filter_any_match[of "noOptions\<lparr>tools := Some [''Bash'', ''EDIT'']\<rparr>"
      "[''Bash'', ''EDIT'']" 0 emailSession]
  note v = tool_filter_any_match[of noOptions "[]" 0 emailSession]
  have a: "matchesFilters 0 emailSession (noOptions\<lparr>tools := Some [''Ed'']\<rparr>)"
    using v t none by simp
  have b: "\<not> matchesFilters 0 emailSession (noOptions\<lparr>tools := Some [''Bash'']\<rparr>)"
    using v t by simp
  have c: "matchesFilters 0 emailSession (noOptions\<lparr>tools := Some [''Bash'', ''EDIT'']\<rparr>)"
    using w t none inc by (simp add: noOptions_def)
  from a b c show ?thesis by simp
qed

subsection \<open>C10: a day count of zero\<close>

text \<open>
  C10: with a day count of 0 and no explicit since date there is no lower
  bound: the filters decide as they do with no day count, and a session
  passes, however old its end time, when nothing else is requested.
\<close>

theorem zero_days_is_no_bound:
  "days opts = Some 0 \<and> since opts = None \<longrightarrow>
     sinceBound now opts = None \<and>
     matchesFilters now s opts = matchesFilters now s (opts\<lparr>days := None\<rparr>) \<and>
     (until opts = None \<and> tools opts = None \<and> filePattern opts = None \<longrightarrow>
        matchesFilters now s opts)"
  by (simp add: matchesFilters_def sinceBound_def)

theorem zero_days_is_no_bound_witness:
  "matchesFilters 1708500000000 (emailSession\<lparr>endedAt := Time 0\<rparr>) (noOptions\<lparr>days := Some 0\<rparr>) \<and>
   matchesFilters 1708500000000 (emailSession\<lparr>endedAt := Time 0\<rparr>) noOptions \<and>
   \<not> matchesFilters 1708500000000 (emailSession\<lparr>endedAt := Time 0\<rparr>) (noOptions\<lparr>days := Some 1\<rparr>)"
proof -
  have n: "matchesFilters 1708500000000 (emailSession\<lparr>endedAt := Time 0\<rparr>) noOptions"
    by (simp add: matchesFilters_def sinceBound_def noOptions_def)
  have "matchesFilters 1708500000000 (emailSession\<lparr>endedAt := Time 0\<rparr>) (noOptions\<lparr>days := Some 0\<rparr>)"
    using zero_days_is_no_bound[of "noOptions\<lparr>days := Some 0\<rparr>" 1708500000000
        "emailSession\<lparr>endedAt := Time 0\<rparr>"] n
    by (simp add: noOptions_def)
  moreover note n
  moreover have "\<not> matchesFilters 1708500000000 (emailSession\<lparr>endedAt := Time 0\<rparr>) (noOptions\<lparr>days := Some 1\<rparr>)"
    by (simp add: matchesFilters_def sinceBound_def noOptions_def timeClip_def dateLess_def)
  ultimately show ?thesis by simp
qed

subsection \<open>C3: the email scenario\<close>

text \<open>
  C3: a session whose sole user message is
  \<^verbatim>\<open>Let's build an email filtering system\<close> and whose only tool call is
  \<^verbatim>\<open>Edit\<close> on \<^verbatim>\<open>src/api/email.ts\<close> scores 13 for the query \<^verbatim>\<open>email\<close>, and the
  two locals of \<^verbatim>\<open>scoreRelevance\<close> end as 13 and the categories
  \<^verbatim>\<open>userMessages\<close>, \<^verbatim>\<open>filesFromToolCalls\<close>. The search result built for the
  transcript carries the score and no categories: \<^verbatim>\<open>scoreRelevance\<close> returns
  the score alone, and \<^verbatim>\<open>processSessionFiles\<close> never sets \<^verbatim>\<open>matchedOn\<close>, for
  this or any other result.
\<close>

theorem email_scenario_drops_matchedOn:
  "(userMessages s = [''Let's build an email filtering system''] \<and> toolsUsed s = [''Edit''] \<and>
    filesFromToolCalls s = [''src/api/email.ts''] \<longrightarrow>
      scoreRelevance s ''email'' = 13 \<and>
      scoreLocals s ''email'' = (13, [''userMessages'', ''filesFromToolCalls''])) \<and>
   processSessionFiles exampleRuntime clock [''/sessions/email.jsonl'']
       (noOptions\<lparr>query := Some ''email''\<rparr>) =
     Inr [\<lparr>session = emailSession, relevance = Some 13, matchedOn = None,
           transcriptPath = ''/sessions/email.jsonl''\<rparr>] \<and>
   (processSessionFiles rt clk ps opts = Inr rs \<and> r \<in> set rs \<longrightarrow> matchedOn r = None)"
proof (intro conjI impI)
  assume a: "userMessages s = [''Let's build an email filtering system''] \<and> toolsUsed s = [''Edit''] \<and>
    filesFromToolCalls s = [''src/api/email.ts'']"
  then show l: "scoreLocals s ''email'' = (13, [''userMessages'', ''filesFromToolCalls''])"
    by (simp add: email_scoreLocals)
  then show "scoreRelevance s ''email'' = 13"
    by (simp add: scoreRelevance_def)
next
  have f: "userMessages emailSession = [''Let's build an email filtering system'']"
    "toolsUsed emailSession = [''Edit'']" "filesFromToolCalls emailSession = [''src/api/email.ts'']"
    by (simp_all add: emailSession_def)
  have sc: "scoreRelevance emailSession ''email'' = 13"
    by (simp add: scoreRelevance_def email_scoreLocals[OF f])
  have mf: "matchesFilters (clock 0) emailSession (noOptions\<lparr>query := Some ''email''\<rparr>)"
    by (simp add: matchesFilters_def sinceBound_def noOptions_def)
  show "processSessionFiles exampleRuntime clock [''/sessions/email.jsonl'']
       (noOptions\<lparr>query := Some ''email''\<rparr>) =
     Inr [\<lparr>session = emailSession, relevance = Some 13, matchedOn = None,
           transcriptPath = ''/sessions/email.jsonl''\<rparr>]"
    by (simp add: parse_email_file sc mf f)
next
  assume "processSessionFiles rt clk ps opts = Inr rs \<and> r \<in> set rs"
  then show "matchedOn r = None"
    using processSessionFiles_matchedOn by blast
qed

theorem email_scenario_drops_matchedOn_witness:
  "scoreRelevance emailSession ''email'' = 13 \<and>
   map matchedOn (projr (processSessionFiles exampleRuntime (\<lambda>i. 0) [''/sessions/email.jsonl'']
       (noOptions\<lparr>query := Some ''email''\<rparr>))) = [None] \<and>
   map relevance (projr (processSessionFiles exampleRuntime (\<lambda>i. 0) [''/sessions/email.jsonl'']
       (noOptions\<lparr>query := Some ''email''\<rparr>))) = [Some 13]"
  using email_scenario_drops_matchedOn[of emailSession "\<lambda>i. 0"]
  by (simp add: emailSession_def)

subsection \<open>C5: ranking and truncation\<close>

text \<open>
  C5, as stated, fails at a requested limit of 0: \<^verbatim>\<open>options.limit || 20\<close> reads
  it as no limit, and the search returns all three example sessions.
\<close>

theorem search_limit_zero_counterexample:
  "searchSessions exampleRuntime exampleClock [''/sessions''] (noOptions\<lparr>limit := Some 0\<rparr>) =
     Inr [asResult emailSession ''/sessions/email.jsonl'', asResult piSession ''/sessions/pi.jsonl'',
          asResult lateSession ''/sessions/late.jsonl''] \<and>
   \<not> length [asResult emailSession ''/sessions/email.jsonl'', asResult piSession ''/sessions/pi.jsonl'',
          asResult lateSession ''/sessions/late.jsonl''] \<le> 0"
  by (simp add: example_search0)

text \<open>
  C5, amended: when every candidate collected over all sources has a valid
  end time, the output is a prefix of one list \<open>ranked\<close> that holds exactly
  the candidates, in descending score and, at equal scores, descending end
  time, with candidates of equal score and end time in their input order.
  The prefix has the requested length for a positive limit and length 20 when
  no limit or the limit 0 is given (a negative limit drops that many results
  from the end).
\<close>

theorem search_output_ranked:
  assumes "collectResults rt clock dirs opts = Inr results"
    and "list_all (\<lambda>r. endedAt (session r) \<noteq> InvalidDate) results"
  shows "\<exists>ranked.
           mset ranked = mset results \<and>
           sorted_wrt rankedBefore ranked \<and>
           (\<forall>r. filter (sameRank r) ranked = filter (sameRank r) results) \<and>
           (case limit opts of
              None \<Rightarrow> searchSessions rt clock dirs opts = Inr (take 20 ranked)
            | Some k \<Rightarrow>
                if k = 0 then searchSessions rt clock dirs opts = Inr (take 20 ranked)
                else if 0 < k then searchSessions rt clock dirs opts = Inr (take (nat k) ranked)
                else searchSessions rt clock dirs opts =
                       Inr (take (length ranked - nat (- k)) ranked))"
proof -
  have v: "\<forall>x \<in> set results. validResult x"
    using assms(2) collectResults_relevance[OF assms(1)]
    by (auto simp: validResult_def list_all_iff)
  let ?ranked = "arraySort compareResults results"
  have s: "searchSessions rt clock dirs opts = Inr (sliceTo ?ranked (limitOrDefault opts))"
    by (simp add: searchSessions_def assms(1))
  have neg: "\<And>k n. k < 0 \<Longrightarrow> nat (int n + k) = n - nat (- k)"
    by linarith
  have "case limit opts of
              None \<Rightarrow> searchSessions rt clock dirs opts = Inr (take 20 ?ranked)
            | Some k \<Rightarrow>
                if k = 0 then searchSessions rt clock dirs opts = Inr (take 20 ?ranked)
                else if 0 < k then searchSessions rt clock dirs opts = Inr (take (nat k) ?ranked)
                else searchSessions rt clock dirs opts =
                       Inr (take (length ?ranked - nat (- k)) ?ranked)"
    unfolding s by (auto simp: sliceTo_def limitOrDefault_def neg split: option.split)
  with arraySort_ranked[OF v] show ?thesis by blast
qed

theorem search_output_ranked_witness:
  "\<exists>ranked.
     mset ranked = mset [asResult lateSession ''/sessions/late.jsonl'',
                         asResult emailSession ''/sessions/email.jsonl'',
                         asResult piSession ''/sessions/pi.jsonl''] \<and>
     sorted_wrt rankedBefore ranked \<and>
     searchSessions exampleRuntime exampleClock [''/sessions''] (noOptions\<lparr>limit := Some 2\<rparr>) =
       Inr (take 2 ranked)"
proof -
  have c: "collectResults exampleRuntime exampleClock [''/sessions''] (noOptions\<lparr>limit := Some 2\<rparr>) =
     Inr [asResult lateSession ''/sessions/late.jsonl'', asResult emailSession ''/sessions/email.jsonl'',
          asResult piSession ''/sessions/pi.jsonl'']"
    by code_simp
  have v: "list_all (\<lambda>r. endedAt (session r) \<noteq> InvalidDate)
     [asResult lateSession ''/sessions/late.jsonl'', asResult emailSession ''/sessions/email.jsonl'',
          asResult piSession ''/sessions/pi.jsonl'']"
    by (simp add: asResult_def lateSession_def emailSession_def piSession_def)
  from search_output_ranked[OF c v] show ?thesis
    by (auto simp: noOptions_def)
qed

subsection \<open>C4: transcripts without conversational turns\<close>

text \<open>
  C4: when no line of the transcript parses to a user or assistant turn of
  either dialect (every line that parses is a control or metadata record, not
  the JSON literal \<^verbatim>\<open>null\<close>), \<^verbatim>\<open>parseSessionContent\<close> returns \<^verbatim>\<open>null\<close>: it
  neither throws nor returns a record.
\<close>

theorem no_turns_parse_to_null:
  assumes "\<forall>v \<in> set (parsedLines rt content). v \<noteq> JNull \<and> \<not> isClaudeTurn v \<and> \<not> isPiTurn v"
  shows "parseSessionContent rt content sid = Inr None"
proof (cases "contentLines content")
  case Nil
  then show ?thesis by (simp add: parseSessionContent_def)
next
  case (Cons l ls)
  have nn: "JNull \<notin> set (piAllMessages rt (contentLines content))"
    using assms by (auto simp: parsedLines_def piAllMessages_eq)
  have nt: "filter isPiTurn (piAllMessages rt (contentLines content)) = []"
    using assms by (auto simp: parsedLines_def piAllMessages_eq filter_empty_conv)
  have "detectSessionFormat rt l \<noteq> Claude"
  proof (cases "JSON_parse rt l")
    case None
    then show ?thesis by (simp add: detectSessionFormat_def)
  next
    case (Some v)
    with Cons have "v \<in> set (parsedLines rt content)"
      by (simp add: parsedLines_def)
    with assms have "v \<noteq> JNull" "\<not> isClaudeTurn v" by auto
    with Some show ?thesis
      by (auto simp: detectSessionFormat_def getProp_def isClaudeTurn_def)
  qed
  then show ?thesis
    using Cons parsePi_no_turn[OF nn nt, of sid]
    by (cases "detectSessionFormat rt l") (simp_all add: parseSessionContent_def)
qed

theorem no_turns_parse_to_null_witness:
  "parseSessionContent exampleRuntime
     (joinLines [piSessionLine, piModelChangeLine, summaryLine, brokenLine]) None = Inr None \<and>
   detectSessionFormat exampleRuntime piSessionLine = Pi"
proof -
  have "\<forall>v \<in> set (parsedLines exampleRuntime
      (joinLines [piSessionLine, piModelChangeLine, summaryLine, brokenLine])).
      v \<noteq> JNull \<and> \<not> isClaudeTurn v \<and> \<not> isPiTurn v"
    unfolding parsedLines_def blank_lines blank_parsed
    by (simp add: piSessionRecord_def piModelChangeRecord_def summaryRecord_def
        isClaudeTurn_def isPiTurn_def)
  then have "parseSessionContent exampleRuntime
     (joinLines [piSessionLine, piModelChangeLine, summaryLine, brokenLine]) None = Inr None"
    by (rule no_turns_parse_to_null)
  moreover have "detectSessionFormat exampleRuntime piSessionLine = Pi"
    by code_simp
  ultimately show ?thesis by simp
qed

subsection \<open>C2: malformed lines\<close>

text \<open>
  C2, as stated, fails where the first line is malformed: the format is
  detected from the first line alone, an unparseable first line gives the
  format unknown and the result \<^verbatim>\<open>null\<close>, while the same transcript without
  the malformed line parses to a record.
\<close>

theorem malformed_first_line_counterexample:
  "parseSessionContent exampleRuntime (joinLines [brokenLine, userLine, editLine]) None = Inr None \<and>
   parseSessionContent exampleRuntime (joinLines [userLine, editLine]) None = Inr (Some emailSession) \<and>
   contentLines (joinLines [userLine, editLine]) =
     filter (\<lambda>l. JSON_parse exampleRuntime l \<noteq> None)
       (contentLines (joinLines [brokenLine, userLine, editLine]))"
  by code_simp

text \<open>
  C2, amended: let a second transcript consist of the lines of the first that
  parse. If the first line of the first transcript parses, both transcripts
  give the same result (the same record, the same \<^verbatim>\<open>null\<close> or the same
  exception): malformed lines after the first are skipped. If the first
  line does not parse, or there is no line, the result is \<^verbatim>\<open>null\<close>.
\<close>

theorem malformed_lines_skipped:
  assumes "contentLines content' =
             filter (\<lambda>l. JSON_parse rt l \<noteq> None) (contentLines content)"
  shows "(case contentLines content of
            [] \<Rightarrow> parseSessionContent rt content sid = Inr None
          | l # ls \<Rightarrow>
              if JSON_parse rt l = None then parseSessionContent rt content sid = Inr None
              else parseSessionContent rt content sid = parseSessionContent rt content' sid)"
proof (cases "contentLines content")
  case Nil
  then show ?thesis by (simp add: parseSessionContent_def)
next
  case (Cons l ls)
  show ?thesis
  proof (cases "JSON_parse rt l")
    case None
    with Cons show ?thesis
      by (simp add: parseSessionContent_def detectSessionFormat_def)
  next
    case (Some v)
    with Cons assms have c': "contentLines content' = l # filter (\<lambda>l. JSON_parse rt l \<noteq> None) ls"
      by simp
    have m: "claudeMessages rt (contentLines content) = claudeMessages rt (contentLines content')"
      unfolding claudeMessages_eq assms map_filter_valid ..
    have a: "piAllMessages rt (contentLines content) = piAllMessages rt (contentLines content')"
      unfolding piAllMessages_eq assms map_filter_valid ..
    have "parseSessionContent rt content sid = parseSessionContent rt content' sid"
      unfolding parseSessionContent_def Let_def
      using parseClaude_via_messages[OF m, of sid] parsePi_via_messages[OF a, of sid]
      by (simp add: Cons c' split: format.split)
    with Cons Some show ?thesis by simp
  qed
qed

theorem malformed_lines_skipped_witness:
  "parseSessionContent exampleRuntime (joinLines [userLine, brokenLine, editLine, brokenLine]) None =
     parseSessionContent exampleRuntime (joinLines [userLine, editLine]) None \<and>
   parseSessionContent exampleRuntime (joinLines [userLine, editLine]) None = Inr (Some emailSession)"
  using malformed_lines_skipped[OF interleaved_valid, of None]
  by (simp add: interleaved_lines parse_user_line parse_email_transcript)

subsection \<open>C9: the temporal bounds\<close>

text \<open>
  C9, as stated, fails: the two bounds are read off the first and the last
  conversational turn and never compared or sorted. A transcript whose last
  turn is stamped 09:00 and whose first turn is stamped 10:00 of the same day
  parses to a record that starts after it ends.
\<close>

theorem started_after_ended_counterexample:
  "parseSessionContent exampleRuntime (joinLines [userLine, earlyLine]) None = Inr (Some lateSession) \<and>
   startedAt lateSession = Time 1708423200000 \<and> endedAt lateSession = Time 1708419600000 \<and>
   \<not> dateLessEq (startedAt lateSession) (endedAt lateSession)"
proof -
  have "parseSessionContent exampleRuntime (joinLines [userLine, earlyLine]) None = Inr (Some lateSession)"
    by code_simp
  then show ?thesis
    by (simp add: lateSession_def dateLessEq_def)
qed

text \<open>
  C9, amended: for every transcript that parses to a record, there is at
  least one conversational turn, \<open>startedAt\<close> is the date of the timestamp of
  the first conversational turn and \<open>endedAt\<close> that of the last (not of the
  first and last raw line), and the record counts the turns. Hence
  \<open>startedAt \<le> endedAt\<close> holds exactly when these two timestamps are valid
  dates in that order.
\<close>

theorem session_bounds_from_turns:
  assumes "parseSessionContent rt content sid = Inr (Some s)"
  shows "conversationalTurns rt content \<noteq> [] \<and>
         startedAt s = Date_new rt (field (hd (conversationalTurns rt content)) ''timestamp'') \<and>
         endedAt s = Date_new rt (field (last (conversationalTurns rt content)) ''timestamp'') \<and>
         messageCount s = length (conversationalTurns rt content) \<and>
         dateLessEq (startedAt s) (endedAt s) =
           dateLessEq (Date_new rt (field (hd (conversationalTurns rt content)) ''timestamp''))
                      (Date_new rt (field (last (conversationalTurns rt content)) ''timestamp''))"
proof -
  from parseSessionContent_Some[OF assms] show ?thesis
  proof
    assume a: "transcriptFormat rt content = Claude \<and>
            parseClaudeSessionContent rt (contentLines content) sid = Inr (Some s)"
    then have t: "conversationalTurns rt content = claudeMessages rt (contentLines content)"
      by (simp add: conversationalTurns_def claudeMessages_eq parsedLines_def)
    from a parseClaude_Some[of rt "contentLines content" sid s] show ?thesis
      unfolding t by auto
  next
    assume a: "transcriptFormat rt content = Pi \<and>
            parsePiSessionContent rt (contentLines content) sid = Inr (Some s)"
    then have t: "conversationalTurns rt content = filter isPiTurn (piAllMessages rt (contentLines content))"
      by (simp add: conversationalTurns_def piAllMessages_eq parsedLines_def)
    from a parsePi_Some[of rt "contentLines content" sid s] obtain conv where
      c: "filterE isPiConversation (piAllMessages rt (contentLines content)) = Inr conv" and
      b: "conv \<noteq> []" "startedAt s = Date_new rt (field (hd conv) ''timestamp'')"
         "endedAt s = Date_new rt (field (last conv) ''timestamp'')" "messageCount s = length conv"
      by blast
    from c have "conv = filter isPiTurn (piAllMessages rt (contentLines content))"
      by (simp add: filterE_isPiConversation split: if_splits)
    with b show ?thesis unfolding t by simp
  qed
qed

theorem session_bounds_from_turns_witness:
  "startedAt emailSession = exampleDate (field userRecord ''timestamp'') \<and>
   endedAt emailSession = exampleDate (field editRecord ''timestamp'') \<and>
   dateLessEq (startedAt emailSession) (endedAt emailSession)"
proof -
  have d: "Date_new exampleRuntime = exampleDate"
    by (simp add: exampleRuntime_def)
  from session_bounds_from_turns[OF summary_first_parse]
  have "startedAt emailSession = exampleDate (field userRecord ''timestamp'') \<and>
   endedAt emailSession = exampleDate (field editRecord ''timestamp'')"
    unfolding summary_first_turns d by simp
  moreover have "dateLessEq (startedAt emailSession) (endedAt emailSession)"
    by (simp add: emailSession_def dateLessEq_def)
  ultimately show ?thesis by simp
qed

subsection \<open>C1: session counters and per-model counters\<close>




subsection \<open>C6: blank user text\<close>

text \<open>
  C6: the Claude normalizer keeps the text of a user turn only when it is a
  string with a character that is not whitespace, so every user message of a
  record it returns is non-blank. The Pi normalizer keeps a text block
  whenever its text is a non-empty string: every user message of a record
  it returns is non-empty, but a Pi user turn whose text is three spaces
  yields the user message of three spaces, where the same text in a Claude
  user turn is dropped.
\<close>

theorem pi_keeps_blank_user_text:
  "(transcriptFormat rt content = Claude \<and> parseSessionContent rt content sid = Inr (Some s) \<longrightarrow>
      list_all (\<lambda>m. trim m \<noteq> []) (userMessages s)) \<and>
   (transcriptFormat rt content = Pi \<and> parseSessionContent rt content sid = Inr (Some s) \<longrightarrow>
      list_all (\<lambda>m. m \<noteq> []) (userMessages s)) \<and>
   parseSessionContent exampleRuntime (joinLines [piSessionLine, piBlankLine]) None =
     Inr (Some blankSession) \<and>
   userMessages blankSession = [''   ''] \<and> trim ''   '' = [] \<and>
   map_sum id (map_option userMessages)
     (parseSessionContent exampleRuntime (joinLines [blankUserLine, editLine]) None) =
   Inr (Some [])"
proof (intro conjI impI)
  assume a: "transcriptFormat rt content = Claude \<and> parseSessionContent rt content sid = Inr (Some s)"
  with parseSessionContent_Some[of rt content sid s]
  have "parseClaudeSessionContent rt (contentLines content) sid = Inr (Some s)" by auto
  then show "list_all (\<lambda>m. trim m \<noteq> []) (userMessages s)"
    by (rule claude_userMessages_nonBlank)
next
  assume a: "transcriptFormat rt content = Pi \<and> parseSessionContent rt content sid = Inr (Some s)"
  with parseSessionContent_Some[of rt content sid s]
  have "parsePiSessionContent rt (contentLines content) sid = Inr (Some s)" by auto
  then show "list_all (\<lambda>m. m \<noteq> []) (userMessages s)"
    by (rule pi_userMessages_nonEmpty)
next
  show "parseSessionContent exampleRuntime (joinLines [piSessionLine, piBlankLine]) None =
     Inr (Some blankSession)" by (rule parse_blank_pi)
  show "userMessages blankSession = [''   '']" by (simp add: blankSession_def)
  show "trim ''   '' = []" by (rule trim_spaces)
  show "map_sum id (map_option userMessages)
     (parseSessionContent exampleRuntime (joinLines [blankUserLine, editLine]) None) =
   Inr (Some [])" by (rule parse_blank_claude)
qed

theorem pi_keeps_blank_user_text_witness:
  "list_all (\<lambda>m. trim m \<noteq> []) (userMessages emailSession) \<and>
   list_all (\<lambda>m. m \<noteq> []) (userMessages blankSession) \<and>
   \<not> list_all (\<lambda>m. trim m \<noteq> []) (userMessages blankSession)"
proof -
  from pi_keeps_blank_user_text[of exampleRuntime "joinLines [userLine, editLine]" None emailSession]
  have "list_all (\<lambda>m. trim m \<noteq> []) (userMessages emailSession)"
    by (simp add: email_format parse_email_transcript)
  moreover
  from pi_keeps_blank_user_text[of exampleRuntime "joinLines [piSessionLine, piBlankLine]" None blankSession]
  have "list_all (\<lambda>m. m \<noteq> []) (userMessages blankSession)"
    by (simp add: blank_pi_format parse_blank_pi)
  moreover have "\<not> list_all (\<lambda>m. trim m \<noteq> []) (userMessages blankSession)"
    by (simp add: blankSession_def trim_spaces)
  ultimately show ?thesis by simp
qed

end
